theory Spec2Isabelle
  imports Complex_Main "HOL-Library.Word"
begin

unbundle bit_operations_syntax

section \<open>Data model of \<open>power_wifi.cpp\<close>\<close>

text \<open>
  The firmware targets an ARM Cortex-M3 board: \<open>char\<close>, \<open>unsigned char\<close>,
  \<open>uint8_t\<close> and \<open>int8_t\<close> are 8-bit words, \<open>unsigned short\<close>, \<open>uint16_t\<close> and
  \<open>int16_t\<close> are 16-bit words, \<open>unsigned int\<close> and \<open>uint32_t\<close> are 32-bit words.
  A signed variable is a word read through \<open>sint\<close>.
\<close>

type_synonym u8 = "8 word"
type_synonym u16 = "16 word"
type_synonym u32 = "32 word"

subsection \<open>Constants (the \<open>#define\<close>s of the file)\<close>

abbreviation (input) WIFI_CMD_REQPWR :: u8 where "WIFI_CMD_REQPWR \<equiv> 0"
abbreviation (input) WIFI_CMD_GET_STATUS :: u8 where "WIFI_CMD_GET_STATUS \<equiv> 1"
abbreviation (input) WIFI_CMD_GIVE_STATUS :: u8 where "WIFI_CMD_GIVE_STATUS \<equiv> 2"
abbreviation (input) WIFI_CMD_CTL_DIR :: u8 where "WIFI_CMD_CTL_DIR \<equiv> 3"
abbreviation (input) WIFI_CMD_TERMINATE :: u8 where "WIFI_CMD_TERMINATE \<equiv> 4"
abbreviation (input) WIFI_CMD_SCAN :: u8 where "WIFI_CMD_SCAN \<equiv> 5"
abbreviation (input) WIFI_CMD_MOVE :: u8 where "WIFI_CMD_MOVE \<equiv> 6"

abbreviation (input) WIFI_MASTER_ADDR :: u8 where "WIFI_MASTER_ADDR \<equiv> 100"

abbreviation (input) WIFI_STATUS_IDX_ERR :: nat where "WIFI_STATUS_IDX_ERR \<equiv> 1"
abbreviation (input) WIFI_STATUS_IDX_ADCU :: nat where "WIFI_STATUS_IDX_ADCU \<equiv> 2"
abbreviation (input) WIFI_STATUS_IDX_ADCL :: nat where "WIFI_STATUS_IDX_ADCL \<equiv> 3"
abbreviation (input) WIFI_STATUS_IDX_MPOS :: nat where "WIFI_STATUS_IDX_MPOS \<equiv> 4"
abbreviation (input) ADC_AVERAGE_DEPTH :: nat where "ADC_AVERAGE_DEPTH \<equiv> 2000"

abbreviation (input) WIFI_MOVE_IDX_PARAM1 :: nat where "WIFI_MOVE_IDX_PARAM1 \<equiv> 1"
abbreviation (input) WIFI_MOVE_IDX_PARAM2 :: nat where "WIFI_MOVE_IDX_PARAM2 \<equiv> 2"

abbreviation (input) DIRECTION_PIN :: u32 where "DIRECTION_PIN \<equiv> 2"
abbreviation (input) ENABLE_PIN :: u32 where "ENABLE_PIN \<equiv> 1"
abbreviation (input) STEP_PIN :: u32 where "STEP_PIN \<equiv> 8"

abbreviation (input) SPEED_MS :: u16 where "SPEED_MS \<equiv> 10"
abbreviation (input) STEPS_FULL_REV :: nat where "STEPS_FULL_REV \<equiv> 400"
abbreviation (input) ENERGY_SAMPLES :: nat where "ENERGY_SAMPLES \<equiv> 10"
abbreviation (input) ADC_SAMPLE_PERIOD :: nat where "ADC_SAMPLE_PERIOD \<equiv> 40"
abbreviation (input) STEPS_PER_REV :: nat where "STEPS_PER_REV \<equiv> 200"

abbreviation (input) DRIVE_ON :: bool where "DRIVE_ON \<equiv> False"
abbreviation (input) CW :: bool where "CW \<equiv> True"
abbreviation (input) CCW :: bool where "CCW \<equiv> False"

text \<open>Capacity given to \<open>xQueueCreate\<close> for \<open>motion_queue\<close> in \<open>power_wifi_init\<close>.\<close>

abbreviation (input) MOTION_QUEUE_LEN :: nat where "MOTION_QUEUE_LEN \<equiv> 10"

subsection \<open>Motion Command Word\<close>

definition CMD_UNPACK :: "u32 \<Rightarrow> u32" where
  "CMD_UNPACK p = drop_bit 24 p AND 0xff"

definition PARAM1_UNPACK :: "u32 \<Rightarrow> u32" where
  "PARAM1_UNPACK p = drop_bit 16 p AND 0xff"

definition PARAM2_UNPACK :: "u32 \<Rightarrow> u32" where
  "PARAM2_UNPACK p = drop_bit 8 p AND 0xff"

definition PARAM3_UNPACK :: "u32 \<Rightarrow> u32" where
  "PARAM3_UNPACK p = drop_bit 0 p AND 0xff"

subsection \<open>Packets, environment, observable events\<close>

text \<open>
  Modelled from the spec: \<open>mesh_packet_t\<close>, declared in \<open>wireless.h\<close>, which is not part
  of the sources.  The spec's Mesh Packet has node addresses, a data length (0 to
  255) and a buffer of bytes whose first byte is the command.  The fields the
  code touches are kept: the origin \<open>nwk.src\<close>, the declared length
  \<open>info.data_len\<close> and the byte buffer \<open>data\<close>.  The buffer has a fixed capacity that
  does not depend on \<open>data_len\<close>; it is the list of its bytes from index 0, as far
  as they are read.  A byte is unsigned, so that \<open>data[i] << 16\<close> has no bit above
  bit 23.
\<close>

record mesh_packet =
  nwk_src :: u8
  data_len :: u8
  data :: "u8 list"

text \<open>
  What the code asks of its collaborators: the node address
  (\<open>mesh_get_node_address\<close>) and the analog input (\<open>adc0_get_reading\<close>, the
  \<open>n\<close>-th call since start-up returning \<open>adc0 n\<close>).
\<close>

record env =
  node_addr :: u8
  adc0 :: "nat \<Rightarrow> u16"

text \<open>
  Calls of the dispatcher that leave the task: \<open>wireless_send\<close> with
  destination, payload and result, \<open>xQueueSend\<close> on \<open>motion_queue\<close> with the word and
  result, and \<open>pr_err\<close> with its message.  The \<open>pr_debug\<close> output of the dispatcher
  is not modelled.
\<close>

datatype event =
  WirelessSend u8 "u8 list" bool
  | QueueSend u32 bool
  | PrErr string

datatype commandType = scan | set_speed | move | test_rotate_pos | test_rotate_neg | none

text \<open>
  An entry of the motion task's trace: \<open>Delay t\<close> for \<open>vTaskDelay(t)\<close>, \<open>Debug s\<close> for
  the \<open>pr_debug\<close> call whose format string starts with \<open>s\<close>.
\<close>

datatype obs = Delay nat | Debug string

text \<open>
  The file-scope variables.  \<open>fio\<close> is the output latch of GPIO port 2: writing
  \<open>FIOSET\<close> sets bits of it, writing \<open>FIOCLR\<close> clears bits, and reading \<open>FIOPIN\<close> or
  \<open>FIOSET\<close> returns it.  \<open>energyArray\<close> holds C doubles; every value ever stored
  is the quotient of two unsigned integers, which a double represents exactly, so
  the entries are reals.  \<open>adc_calls\<close> counts the calls of \<open>adc0_get_reading\<close> so far.
  \<open>trace\<close> records, in order, what the motion task does that takes time: each
  \<open>pr_debug\<close> call (a \<open>printf\<close>) and each \<open>vTaskDelay\<close> call (a suspension), each with
  the value \<open>busy_bit\<close> has at that moment.  \<open>command\<close> is \<open>None\<close> after a read past the end of
  \<open>commandSequence\<close>.
\<close>

record fw =
  position :: u8
  busy :: u8
  error :: u8
  slave_boot_up :: bool
  motion_queue :: "u32 list"
  current_pos :: u16
  steps_todo :: u16
  steps_todo2 :: u8
  current_speed :: u16
  energyArray :: "real list"
  commandSequence :: "commandType list"
  energyArray_idx :: u8
  busy_bit :: u8
  command :: "commandType option"
  command_idx :: u8
  fio :: u32
  adc_calls :: nat
  trace :: "(obs \<times> u8) list"

text \<open>The static initialisers, followed by the assignments of \<open>power_wifi_init\<close>.\<close>

definition power_wifi_init :: fw where
  "power_wifi_init =
     \<lparr> position = 0, busy = 0, error = 0, slave_boot_up = False, motion_queue = [],
       current_pos = 0, steps_todo = 0, steps_todo2 = 0, current_speed = SPEED_MS,
       energyArray = replicate (ENERGY_SAMPLES * 2) 0,
       commandSequence = (replicate 10 scan)[0 := scan, 1 := scan],
       energyArray_idx = 0, busy_bit = 0, command = Some none, command_idx = 0,
       fio = 0, adc_calls = 0, trace = [] \<rparr>"

section \<open>Packet codec and dispatcher\<close>

text \<open>
  The averaging loop of \<open>wifi_slave_heartbeat\<close>: \<open>unsigned short adc\<close> accumulates
  \<open>ADC_AVERAGE_DEPTH\<close> readings, so the sum wraps at 16 bits.  \<open>adc_sum16 f c n acc\<close>
  runs \<open>n\<close> iterations, the first one making call number \<open>c\<close>.
\<close>

fun adc_sum16 :: "(nat \<Rightarrow> u16) \<Rightarrow> nat \<Rightarrow> nat \<Rightarrow> u16 \<Rightarrow> u16" where
  "adc_sum16 f c 0 acc = acc"
| "adc_sum16 f c (Suc n) acc = adc_sum16 f (Suc c) n (acc + f c)"

text \<open>
  \<open>wifi_slave_heartbeat\<close>: returns the new state and the events.  The result of
  \<open>wireless_send\<close> (\<open>tx_ok\<close>) is ignored by the code.
\<close>

definition wifi_slave_heartbeat :: "env \<Rightarrow> bool \<Rightarrow> fw \<Rightarrow> fw \<times> event list" where
  "wifi_slave_heartbeat e tx_ok st =
     (let st1 = st\<lparr>error := busy st\<rparr>;
          adc = adc_sum16 (adc0 e) (adc_calls st1) ADC_AVERAGE_DEPTH 0;
          st2 = st1\<lparr>adc_calls := adc_calls st1 + ADC_AVERAGE_DEPTH\<rparr>;
          adc = adc div 2000;
          pkg = [WIFI_CMD_GIVE_STATUS,
                 error st2,
                 ucast (drop_bit 8 adc AND 0xf),
                 ucast (adc AND 0xff),
                 position st2]
      in (st2, [WirelessSend WIFI_MASTER_ADDR pkg tx_ok]))"

text \<open>
  Modelled from the spec: \<open>xQueueSend(motion_queue, &motion, 1000)\<close>, a primitive of
  the scheduler, which is not part of the sources.  The queue is first-in
  first-out and holds at most \<open>MOTION_QUEUE_LEN\<close> words; a send to a full queue
  fails once the bounded wait is over and the word is dropped (nothing drains the
  queue while the dispatcher runs).
\<close>

definition xQueueSend :: "u32 \<Rightarrow> fw \<Rightarrow> fw \<times> bool" where
  "xQueueSend w st =
     (if length (motion_queue st) < MOTION_QUEUE_LEN
      then (st\<lparr>motion_queue := motion_queue st @ [w]\<rparr>, True)
      else (st, False))"

text \<open>
  \<open>wifi_pkt_decoding\<close>: the result code, the new state and the events.  \<open>tx_ok\<close> is
  what \<open>wireless_send\<close> returns if the call makes one (no path makes two).  The
  \<open>switch\<close> is the chain of tests in the order of its \<open>case\<close> labels; \<open>return cmd\<close>
  widens the \<open>char\<close> to \<open>int\<close>.
\<close>

definition wifi_pkt_decoding :: "env \<Rightarrow> bool \<Rightarrow> fw \<Rightarrow> mesh_packet \<Rightarrow> int \<times> fw \<times> event list" where
  "wifi_pkt_decoding e tx_ok st pkt =
     (let len = data_len pkt;
          cmd = data pkt ! 0
      in if cmd = WIFI_CMD_REQPWR then
           (if node_addr e \<noteq> WIFI_MASTER_ADDR then (0, st, [])
            else (0, st, WirelessSend (nwk_src pkt) [WIFI_CMD_GET_STATUS] tx_ok #
                         (if \<not> tx_ok then [PrErr ''failed to reply REQPWR''] else [])))
         else if cmd = WIFI_CMD_GET_STATUS then
           (let st1 = st\<lparr>slave_boot_up := True\<rparr>
            in if node_addr e = WIFI_MASTER_ADDR then (0, st1, [])
               else (let (st2, evs) = wifi_slave_heartbeat e tx_ok st1 in (0, st2, evs)))
         else if cmd = WIFI_CMD_GIVE_STATUS then
           (if node_addr e \<noteq> WIFI_MASTER_ADDR then (0, st, [])
            else if len = 0 then (uint cmd, st, [PrErr ''no status received!''])
            else (0, st, WirelessSend (nwk_src pkt) [WIFI_CMD_SCAN] tx_ok #
                         (if \<not> tx_ok then [PrErr ''failed to reply REQPWR''] else [])))
         else if cmd = WIFI_CMD_CTL_DIR then (0, st, [])
         else if cmd = WIFI_CMD_TERMINATE then (0, st, [])
         else if cmd = WIFI_CMD_MOVE then
           (let motion = push_bit 24 (ucast cmd) OR
                         push_bit 16 (ucast (data pkt ! WIFI_MOVE_IDX_PARAM1)) OR
                         push_bit 8 (ucast (data pkt ! WIFI_MOVE_IDX_PARAM2));
                (st1, ok) = xQueueSend motion st
            in (0, st1, QueueSend motion ok #
                        (if \<not> ok then [PrErr ''failed to pass MOVE cmd to next layer''] else [])))
         else if cmd = WIFI_CMD_SCAN then
           (let motion = push_bit 24 (ucast cmd);
                (st1, ok) = xQueueSend motion st
            in (0, st1, QueueSend motion ok #
                        (if \<not> ok then [PrErr ''failed to pass MOVE cmd to next layer''] else [])))
         else (0, st, [PrErr ''undefined wireless commands'']))"

text \<open>Reading the events of a call: the packets handed to \<open>wireless_send\<close>, the
  words handed to \<open>xQueueSend\<close>, and whether a \<open>wireless_send\<close> failed.\<close>

fun sent_packet :: "event \<Rightarrow> (u8 \<times> u8 list) option" where
  "sent_packet (WirelessSend dst payload ok) = Some (dst, payload)"
| "sent_packet _ = None"

definition outbound :: "event list \<Rightarrow> (u8 \<times> u8 list) list" where
  "outbound evs = List.map_filter sent_packet evs"

fun queued_word :: "event \<Rightarrow> u32 option" where
  "queued_word (QueueSend w ok) = Some w"
| "queued_word _ = None"

definition motion_words :: "event list \<Rightarrow> u32 list" where
  "motion_words evs = List.map_filter queued_word evs"

fun is_send_failure :: "event \<Rightarrow> bool" where
  "is_send_failure (WirelessSend dst payload ok) = (\<not> ok)"
| "is_send_failure _ = False"

definition send_failure :: "event list \<Rightarrow> bool" where
  "send_failure evs = list_ex is_send_failure evs"

section \<open>Motion controller\<close>

text \<open>
  Modelled from the spec: \<open>vTaskDelay\<close>, a primitive of the scheduler, which is not
  part of the sources.  It suspends the calling task for the given ticks and
  changes no variable; the call is recorded with the value \<open>busy_bit\<close> has while
  the task is suspended.
\<close>

definition vTaskDelay :: "nat \<Rightarrow> fw \<Rightarrow> fw" where
  "vTaskDelay ticks st = st\<lparr>trace := trace st @ [(Delay ticks, busy_bit st)]\<rparr>"

text \<open>
  \<open>pr_debug\<close> in the motion task (\<open>DEBUG\<close> is 1, so every call prints): it changes
  no variable; the call is recorded with the value \<open>busy_bit\<close> has during the call.
\<close>

definition pr_debug :: "string \<Rightarrow> fw \<Rightarrow> fw" where
  "pr_debug fmt st = st\<lparr>trace := trace st @ [(Debug fmt, busy_bit st)]\<rparr>"

definition enableDrive :: "bool \<Rightarrow> fw \<Rightarrow> fw" where
  "enableDrive state st =
     (if state then st\<lparr>fio := fio st OR ENABLE_PIN\<rparr>
      else st\<lparr>fio := fio st AND NOT ENABLE_PIN\<rparr>)"

definition setDirection :: "bool \<Rightarrow> fw \<Rightarrow> fw" where
  "setDirection direction st =
     (if direction then st\<lparr>fio := fio st OR DIRECTION_PIN\<rparr>
      else st\<lparr>fio := fio st AND NOT DIRECTION_PIN\<rparr>)"

text \<open>
  \<open>toggleStep\<close>: a call that finds the step pin high only lowers it; a call
  that finds it low raises it and moves \<open>current_pos\<close> by one.  The sum
  \<open>current_pos + 1\<close> is computed in \<open>int\<close> before the remainder is taken.
\<close>

definition toggleStep :: "fw \<Rightarrow> fw" where
  "toggleStep st =
     (if fio st AND STEP_PIN \<noteq> 0 then st\<lparr>fio := fio st AND NOT STEP_PIN\<rparr>
      else
        (let st1 = st\<lparr>fio := fio st OR STEP_PIN\<rparr>
         in if fio st1 AND DIRECTION_PIN \<noteq> 0
            then st1\<lparr>current_pos := word_of_nat ((unat (current_pos st1) + 1) mod STEPS_PER_REV)\<rparr>
            else if 0 < unat (current_pos st1)
                 then st1\<lparr>current_pos := current_pos st1 - 1\<rparr>
                 else st1\<lparr>current_pos := word_of_nat (STEPS_PER_REV - 1)\<rparr>))"

text \<open>The \<open>while\<close> loop of \<open>get_max_energy_pos\<close>, over the two \<open>uint8_t\<close> indices.\<close>

function get_max_energy_pos_loop :: "real list \<Rightarrow> u8 \<Rightarrow> u8 \<Rightarrow> u8" where
  "get_max_energy_pos_loop arr max_sample_idx cur_sample_idx =
     (if unat cur_sample_idx < ENERGY_SAMPLES
      then get_max_energy_pos_loop arr
             (if arr ! unat cur_sample_idx > arr ! unat max_sample_idx
              then cur_sample_idx else max_sample_idx)
             (cur_sample_idx + 1)
      else max_sample_idx)"
  by pat_completeness auto
termination
  by (relation "measure (\<lambda>(arr, m, c). ENERGY_SAMPLES - unat c)")
     (auto simp: unat_word_ariths)

declare get_max_energy_pos_loop.simps [simp del]

definition get_max_energy_pos :: "fw \<Rightarrow> u8" where
  "get_max_energy_pos st =
     get_max_energy_pos_loop (energyArray st) 0 0 * word_of_nat (ADC_SAMPLE_PERIOD div 2)"

text \<open>
  The averaging loop of the scan: here the accumulator is an \<open>unsigned int\<close>, so
  the sum wraps at 32 bits.
\<close>

fun adc_sum32 :: "(nat \<Rightarrow> u16) \<Rightarrow> nat \<Rightarrow> nat \<Rightarrow> u32 \<Rightarrow> u32" where
  "adc_sum32 f c 0 acc = acc"
| "adc_sum32 f c (Suc n) acc = adc_sum32 f (Suc c) n (acc + ucast (f c))"

text \<open>The body of \<open>if (adc_sample_flag % ADC_SAMPLE_PERIOD == 0)\<close> in the sweep.\<close>

definition scan_sample :: "env \<Rightarrow> fw \<Rightarrow> fw" where
  "scan_sample e st =
     (let st1 = vTaskDelay 1000 st;
          adc = adc_sum32 (adc0 e) (adc_calls st1) ADC_AVERAGE_DEPTH 0;
          st2 = st1\<lparr>adc_calls := adc_calls st1 + ADC_AVERAGE_DEPTH\<rparr>;
          st3 = st2\<lparr>energyArray := (energyArray st2)[unat (energyArray_idx st2) := real (unat (adc div 2000))],
                   energyArray_idx := energyArray_idx st2 + 1\<rparr>
      in pr_debug ''ADC sample'' st3)"

text \<open>
  One pass through the body of the sweep loop; \<open>adc_sample_flag\<close> is the local
  \<open>int\<close>, which the loop increments after the test.
\<close>

definition scan_step :: "env \<Rightarrow> int \<Rightarrow> fw \<Rightarrow> fw" where
  "scan_step e adc_sample_flag st =
     (let st1 = (if adc_sample_flag mod int ADC_SAMPLE_PERIOD = 0 then scan_sample e st else st);
          st2 = toggleStep st1;
          st3 = st2\<lparr>steps_todo := steps_todo st2 - 1\<rparr>
      in vTaskDelay (unat (current_speed st3)) st3)"

function scan_loop :: "env \<Rightarrow> int \<Rightarrow> fw \<Rightarrow> fw" where
  "scan_loop e adc_sample_flag st =
     (if 0 < sint (steps_todo st)
      then scan_loop e (adc_sample_flag + 1) (scan_step e adc_sample_flag st)
      else st)"
  by pat_completeness auto
termination
proof (relation "measure (\<lambda>(e, f, st). nat (sint (steps_todo st)))")
  show "wf (measure (\<lambda>(e :: env, f :: int, st). nat (sint (steps_todo st))))"
    by simp
next
  fix e :: env and adc_sample_flag :: int and st :: fw
  assume pos: "0 < sint (steps_todo st)"
  have keep: "steps_todo (scan_step e adc_sample_flag st) = steps_todo st - 1"
    by (simp add: scan_step_def scan_sample_def toggleStep_def vTaskDelay_def pr_debug_def Let_def)
  have "sint (steps_todo st) < 2 ^ 15"
    using sint_less [of "steps_todo st"] by simp
  with pos have "sint (steps_todo st - 1) = sint (steps_todo st) - 1"
    by (simp add: sint_word_ariths signed_take_bit_int_eq_self)
  with pos keep
  show "((e, adc_sample_flag + 1, scan_step e adc_sample_flag st), (e, adc_sample_flag, st))
          \<in> measure (\<lambda>(e, f, st). nat (sint (steps_todo st)))"
    by simp
qed

declare scan_loop.simps [simp del]

text \<open>The body and the loop that follow the sweep (\<open>while (steps_todo > 0)\<close>).\<close>

definition seek_step :: "fw \<Rightarrow> fw" where
  "seek_step st =
     (let st1 = toggleStep st;
          st2 = st1\<lparr>steps_todo := steps_todo st1 - 1\<rparr>
      in vTaskDelay (unat (current_speed st2)) st2)"

function seek_loop :: "fw \<Rightarrow> fw" where
  "seek_loop st = (if 0 < sint (steps_todo st) then seek_loop (seek_step st) else st)"
  by pat_completeness auto
termination
proof (relation "measure (\<lambda>st. nat (sint (steps_todo st)))")
  show "wf (measure (\<lambda>st. nat (sint (steps_todo st))))"
    by simp
next
  fix st :: fw
  assume pos: "0 < sint (steps_todo st)"
  have keep: "steps_todo (seek_step st) = steps_todo st - 1"
    by (simp add: seek_step_def toggleStep_def vTaskDelay_def Let_def)
  have "sint (steps_todo st) < 2 ^ 15"
    using sint_less [of "steps_todo st"] by simp
  with pos have "sint (steps_todo st - 1) = sint (steps_todo st) - 1"
    by (simp add: sint_word_ariths signed_take_bit_int_eq_self)
  with pos keep
  show "(seek_step st, st) \<in> measure (\<lambda>st. nat (sint (steps_todo st)))"
    by simp
qed

declare seek_loop.simps [simp del]

text \<open>The body and the loop of \<open>WIFI_CMD_MOVE\<close> (\<open>while (steps_todo2 > 0)\<close>).\<close>

definition move_step :: "fw \<Rightarrow> fw" where
  "move_step st =
     (let st1 = toggleStep st;
          st2 = st1\<lparr>steps_todo2 := steps_todo2 st1 - 1\<rparr>
      in vTaskDelay (unat (current_speed st2)) st2)"

function move_loop :: "fw \<Rightarrow> fw" where
  "move_loop st = (if 0 < sint (steps_todo2 st) then move_loop (move_step st) else st)"
  by pat_completeness auto
termination
proof (relation "measure (\<lambda>st. nat (sint (steps_todo2 st)))")
  show "wf (measure (\<lambda>st. nat (sint (steps_todo2 st))))"
    by simp
next
  fix st :: fw
  assume pos: "0 < sint (steps_todo2 st)"
  have keep: "steps_todo2 (move_step st) = steps_todo2 st - 1"
    by (simp add: move_step_def toggleStep_def vTaskDelay_def Let_def)
  have "sint (steps_todo2 st) < 2 ^ 7"
    using sint_less [of "steps_todo2 st"] by simp
  with pos have "sint (steps_todo2 st - 1) = sint (steps_todo2 st) - 1"
    by (simp add: sint_word_ariths signed_take_bit_int_eq_self)
  with pos keep
  show "(move_step st, st) \<in> measure (\<lambda>st. nat (sint (steps_todo2 st)))"
    by simp
qed

declare move_loop.simps [simp del]

text \<open>
  \<open>case WIFI_CMD_SCAN\<close> of \<open>motion_task\<close>.  The difference
  \<open>get_max_energy_pos() - current_pos\<close> is computed in \<open>int\<close> and narrowed to the
  \<open>int16_t\<close> \<open>steps_todo\<close>; the \<open>pr_debug\<close> call that \<open>get_max_energy_pos\<close> makes before
  it returns is recorded where the function is called.
\<close>

definition motion_scan :: "env \<Rightarrow> fw \<Rightarrow> fw" where
  "motion_scan e st =
     (let st1 = st\<lparr>busy_bit := 1\<rparr>;
          adc_sample_flag = 0;
          st1d = pr_debug ''SCANNING'' st1;
          st2 = st1d\<lparr>steps_todo := word_of_nat STEPS_FULL_REV\<rparr>;
          st3 = st2\<lparr>energyArray_idx := 0\<rparr>;
          st4 = enableDrive DRIVE_ON st3;
          st5 = setDirection CW st4;
          st6 = scan_loop e adc_sample_flag st5;
          st6d = pr_debug ''max energy pos'' st6;
          st7 = st6d\<lparr>steps_todo :=
                  word_of_int (uint (get_max_energy_pos st6d) - uint (current_pos st6d))\<rparr>;
          st7d = pr_debug ''currentPos'' st7;
          st8 = vTaskDelay 1000 st7d;
          st9 = setDirection (if 0 < sint (steps_todo st8) then CW else CCW) st8;
          st10 = seek_loop st9;
          st10d = pr_debug ''Scan ended at position'' st10
      in st10d\<lparr>busy_bit := 0\<rparr>)"

text \<open>
  \<open>case WIFI_CMD_MOVE\<close> of \<open>motion_task\<close>.  \<open>PARAM1_UNPACK(rx)\<close> is narrowed to the
  \<open>int8_t\<close> \<open>steps_todo2\<close>; \<open>abs\<close> works on \<open>int\<close> and its result is narrowed again.
\<close>

definition motion_move :: "u32 \<Rightarrow> fw \<Rightarrow> fw" where
  "motion_move rx st =
     (let st1 = st\<lparr>busy_bit := 1\<rparr>;
          st2 = st1\<lparr>steps_todo2 := ucast (PARAM1_UNPACK rx)\<rparr>;
          st2d = pr_debug ''MOVING'' st2;
          st3 = (if 0 < sint (steps_todo2 st2d) then setDirection CW st2d
                 else setDirection CCW st2d);
          st4 = st3\<lparr>steps_todo2 := word_of_int \<bar>sint (steps_todo2 st3)\<bar>\<rparr>;
          st5 = move_loop st4
      in st5\<lparr>busy_bit := 0\<rparr>)"

definition motion_switch :: "env \<Rightarrow> u32 \<Rightarrow> fw \<Rightarrow> fw" where
  "motion_switch e rx st =
     (if CMD_UNPACK rx = ucast WIFI_CMD_SCAN then motion_scan e st
      else if CMD_UNPACK rx = ucast WIFI_CMD_MOVE then motion_move rx st
      else st)"

text \<open>
  One pass through \<open>while (1)\<close> of \<open>motion_task\<close>: an empty queue makes
  \<open>xQueueReceive\<close> time out and the pass ends (\<open>continue\<close>); otherwise the oldest
  word is taken, printed by \<open>pr_debug\<close>, and executed to completion.
\<close>

definition motion_task_iter :: "env \<Rightarrow> fw \<Rightarrow> fw" where
  "motion_task_iter e st =
     (case motion_queue st of
        [] \<Rightarrow> st
      | rx # rest \<Rightarrow>
          (let st0 = pr_debug ''recevied'' (st\<lparr>motion_queue := rest\<rparr>);
               st1 = motion_switch e rx st0
           in if busy_bit st1 = 0
              then st1\<lparr>command :=
                         (if unat (command_idx st1) < length (commandSequence st1)
                          then Some (commandSequence st1 ! unat (command_idx st1))
                          else None),
                       command_idx := command_idx st1 + 1\<rparr>
              else st1))"

section \<open>The firmware as a whole\<close>

text \<open>
  The states the firmware is in between two activities: after start-up, after
  the dispatcher has handled a packet (any packet, any radio outcome), and after
  the motion task has made one pass.
\<close>

inductive reachable :: "env \<Rightarrow> fw \<Rightarrow> bool" for e :: env where
  boot: "reachable e power_wifi_init"
| decode: "reachable e st \<Longrightarrow> reachable e (fst (snd (wifi_pkt_decoding e tx_ok st pkt)))"
| motion: "reachable e st \<Longrightarrow> reachable e (motion_task_iter e st)"

section \<open>Views of the state used in the properties\<close>

text \<open>
  The two output pins the motion code reads back, as the tests of \<open>toggleStep\<close>
  read them, and what a call of \<open>toggleStep\<close> sees and changes: the level of the
  step pin, the direction, and the position as a number.
\<close>

definition step_high :: "fw \<Rightarrow> bool" where
  "step_high st \<longleftrightarrow> fio st AND STEP_PIN \<noteq> 0"

definition dir_cw :: "fw \<Rightarrow> bool" where
  "dir_cw st \<longleftrightarrow> fio st AND DIRECTION_PIN \<noteq> 0"

definition pulse_view :: "fw \<Rightarrow> bool \<times> bool \<times> nat" where
  "pulse_view st = (step_high st, dir_cw st, unat (current_pos st))"

fun toggle_view :: "bool \<times> bool \<times> nat \<Rightarrow> bool \<times> bool \<times> nat" where
  "toggle_view (high, cw, p) =
     (if high then (False, cw, p)
      else (True, cw, if cw then (p + 1) mod STEPS_PER_REV
                      else if 0 < p then p - 1 else STEPS_PER_REV - 1))"

text \<open>
  \<open>edges high n\<close>: among \<open>n\<close> consecutive calls of \<open>toggleStep\<close>, the number that
  raise the step pin, when the pin is \<open>high\<close> before the first call.
\<close>

definition edges :: "bool \<Rightarrow> nat \<Rightarrow> nat" where
  "edges high n = (if high then n div 2 else (n + 1) div 2)"

text \<open>
  \<open>scan_reading e c\<close>: the value the sweep stores for a sample whose first
  \<open>adc0_get_reading\<close> call is call number \<open>c\<close>.
\<close>

definition scan_reading :: "env \<Rightarrow> nat \<Rightarrow> real" where
  "scan_reading e c = real (unat (adc_sum32 (adc0 e) c ADC_AVERAGE_DEPTH 0 div 2000))"

text \<open>
  \<open>extends_with b st st'\<close>: \<open>st'\<close> has \<open>busy_bit = b\<close>, and its trace is that of \<open>st\<close>
  followed by entries that all saw \<open>busy_bit = b\<close>.
\<close>

definition extends_with :: "u8 \<Rightarrow> fw \<Rightarrow> fw \<Rightarrow> bool" where
  "extends_with b st st' \<longleftrightarrow>
     busy_bit st' = b \<and> take (length (trace st)) (trace st') = trace st \<and>
     list_all (\<lambda>d. snd d = b) (drop (length (trace st)) (trace st'))"

text \<open>\<open>suspensions st\<close>: the number of \<open>vTaskDelay\<close> calls in the trace of \<open>st\<close>.\<close>

fun is_delay :: "obs \<times> u8 \<Rightarrow> bool" where
  "is_delay (Delay t, b) = True"
| "is_delay (Debug s, b) = False"

definition suspensions :: "fw \<Rightarrow> nat" where
  "suspensions st = length (filter is_delay (trace st))"

section \<open>Scenarios\<close>

text \<open>
  Inputs used to run the model: a slave at address 7 whose analog input reads
  1000 at every call, packets as the master sends them, and the handling of one
  packet followed by one pass of the motion task.
\<close>

definition slave7 :: env where
  "slave7 = \<lparr>node_addr = 7, adc0 = (\<lambda>n. 1000)\<rparr>"

text \<open>The same slave with the analog input at 3000 during calls 2000 to 3999.\<close>

definition slave7_peak :: env where
  "slave7_peak = \<lparr>node_addr = 7, adc0 = (\<lambda>n. if 2000 \<le> n \<and> n < 4000 then 3000 else 1000)\<rparr>"

definition move_pkt :: "u8 \<Rightarrow> mesh_packet" where
  "move_pkt steps = \<lparr>nwk_src = WIFI_MASTER_ADDR, data_len = 3, data = [WIFI_CMD_MOVE, steps, 0]\<rparr>"

definition scan_pkt :: mesh_packet where
  "scan_pkt = \<lparr>nwk_src = WIFI_MASTER_ADDR, data_len = 1, data = [WIFI_CMD_SCAN]\<rparr>"

definition get_status_pkt :: mesh_packet where
  "get_status_pkt = \<lparr>nwk_src = WIFI_MASTER_ADDR, data_len = 1, data = [WIFI_CMD_GET_STATUS]\<rparr>"

definition handle_packet :: "env \<Rightarrow> fw \<Rightarrow> mesh_packet \<Rightarrow> fw" where
  "handle_packet e st pkt = motion_task_iter e (fst (snd (wifi_pkt_decoding e True st pkt)))"

section \<open>Properties of the dispatcher\<close>

subsection \<open>Packing and unpacking of the Motion Command Word\<close>

lemma and_255_take_bit: "(x :: u32) AND 255 = take_bit 8 x"
proof -
  have "(255 :: u32) = mask 8" by (simp add: mask_eq_exp_minus_1)
  then show ?thesis by (simp only: take_bit_eq_mask)
qed

lemma cmd_unpack_pack:
  "CMD_UNPACK (push_bit 24 (ucast (c::u8)) OR push_bit 16 (ucast (p1::u8)) OR
               push_bit 8 (ucast (p2::u8))) = ucast c"
  unfolding CMD_UNPACK_def and_255_take_bit
  by (rule bit_word_eqI) (auto simp: bit_simps dest: bit_imp_le_length)

lemma param1_unpack_pack:
  "ucast (PARAM1_UNPACK (push_bit 24 (ucast (c::u8)) OR push_bit 16 (ucast (p1::u8)) OR
                         push_bit 8 (ucast (p2::u8)))) = p1"
  unfolding PARAM1_UNPACK_def and_255_take_bit
  by (rule bit_word_eqI) (auto simp: bit_simps dest: bit_imp_le_length)

lemmas cmd_unpack_move = cmd_unpack_pack [of WIFI_CMD_MOVE, simplified]
lemmas param1_unpack_move = param1_unpack_pack [of WIFI_CMD_MOVE, simplified]

text \<open>What the dispatcher does with a packet whose command byte is \<open>WIFI_CMD_MOVE\<close>.\<close>

lemma decode_move:
  "data pkt ! 0 = WIFI_CMD_MOVE \<Longrightarrow>
   wifi_pkt_decoding e tx_ok st pkt =
     (let motion = push_bit 24 (ucast WIFI_CMD_MOVE) OR
                   push_bit 16 (ucast (data pkt ! WIFI_MOVE_IDX_PARAM1)) OR
                   push_bit 8 (ucast (data pkt ! WIFI_MOVE_IDX_PARAM2));
          ok = length (motion_queue st) < MOTION_QUEUE_LEN
      in (0, if ok then st\<lparr>motion_queue := motion_queue st @ [motion]\<rparr> else st,
          QueueSend motion ok #
            (if \<not> ok then [PrErr ''failed to pass MOVE cmd to next layer''] else [])))"
  by (simp add: wifi_pkt_decoding_def xQueueSend_def Let_def)

text \<open>
  Claim C2.  Decoding a MOVE packet hands exactly one Motion Command Word to the
  motion queue.  \<open>CMD_UNPACK\<close> of that word is MOVE, and its first parameter, read
  the way \<open>motion_task\<close> reads it (\<open>PARAM1_UNPACK\<close> narrowed to \<open>int8_t\<close>), is the
  signed value of the packet's first parameter byte; with room in the queue the
  word is appended to it.  The witness instantiates the byte with +5 and with -5.
\<close>

theorem move_packet_roundtrip:
  assumes "data pkt ! 0 = WIFI_CMD_MOVE"
  shows "case wifi_pkt_decoding e tx_ok st pkt of (ret, st', evs) \<Rightarrow>
           (let w = hd (motion_words evs)
            in length (motion_words evs) = 1 \<and>
               CMD_UNPACK w = ucast WIFI_CMD_MOVE \<and>
               sint (ucast (PARAM1_UNPACK w) :: u8) = sint (data pkt ! WIFI_MOVE_IDX_PARAM1) \<and>
               (length (motion_queue st) < MOTION_QUEUE_LEN \<longrightarrow>
                  motion_queue st' = motion_queue st @ [w]))"
  using assms
  by (simp add: decode_move Let_def motion_words_def List.map_filter_simps
        cmd_unpack_move param1_unpack_move)

theorem move_packet_roundtrip_witness:
  "(case wifi_pkt_decoding \<lparr>node_addr = 7, adc0 = (\<lambda>n. 0)\<rparr> True power_wifi_init
           \<lparr>nwk_src = 100, data_len = 3, data = [6, 5, 0]\<rparr> of
      (ret, st', evs) \<Rightarrow>
        CMD_UNPACK (hd (motion_words evs)) = 6 \<and>
        sint (ucast (PARAM1_UNPACK (hd (motion_words evs))) :: u8) = 5 \<and>
        motion_queue st' = [hd (motion_words evs)]) \<and>
   (case wifi_pkt_decoding \<lparr>node_addr = 7, adc0 = (\<lambda>n. 0)\<rparr> True power_wifi_init
           \<lparr>nwk_src = 100, data_len = 3, data = [6, - 5, 0]\<rparr> of
      (ret, st', evs) \<Rightarrow>
        CMD_UNPACK (hd (motion_words evs)) = 6 \<and>
        sint (ucast (PARAM1_UNPACK (hd (motion_words evs))) :: u8) = - 5 \<and>
        motion_queue st' = [hd (motion_words evs)])"
  using move_packet_roundtrip [where pkt = "\<lparr>nwk_src = 100, data_len = 3, data = [6, 5, 0]\<rparr>"
          and e = "\<lparr>node_addr = 7, adc0 = (\<lambda>n. 0)\<rparr>" and tx_ok = True and st = power_wifi_init]
        move_packet_roundtrip [where pkt = "\<lparr>nwk_src = 100, data_len = 3, data = [6, - 5, 0]\<rparr>"
          and e = "\<lparr>node_addr = 7, adc0 = (\<lambda>n. 0)\<rparr>" and tx_ok = True and st = power_wifi_init]
  by (simp add: Let_def power_wifi_init_def split: prod.splits)

text \<open>
  Claim C3, as amended.  A call of \<open>wifi_pkt_decoding\<close> in which \<open>wireless_send\<close>
  failed returns zero, like a call that handled its packet successfully.  The
  result is non-zero only when required payload data was absent: the node is the
  master, the command byte is GIVE_STATUS and the declared data length does not
  reach the last status byte (index \<open>WIFI_STATUS_IDX_MPOS\<close>).  It is non-zero when
  such a packet declares no data at all.
\<close>

theorem decode_result_code:
  "case wifi_pkt_decoding e tx_ok st pkt of (ret, st', evs) \<Rightarrow>
     (send_failure evs \<longrightarrow> ret = 0) \<and>
     (ret \<noteq> 0 \<longrightarrow>
        node_addr e = WIFI_MASTER_ADDR \<and> data pkt ! 0 = WIFI_CMD_GIVE_STATUS \<and>
        unat (data_len pkt) \<le> WIFI_STATUS_IDX_MPOS) \<and>
     (node_addr e = WIFI_MASTER_ADDR \<and> data pkt ! 0 = WIFI_CMD_GIVE_STATUS \<and> data_len pkt = 0 \<longrightarrow>
        ret \<noteq> 0)"
  by (simp add: wifi_pkt_decoding_def wifi_slave_heartbeat_def xQueueSend_def Let_def
        send_failure_def split: prod.splits)

theorem decode_result_code_witness:
  "(case wifi_pkt_decoding \<lparr>node_addr = 100, adc0 = (\<lambda>n. 0)\<rparr> False power_wifi_init
          \<lparr>nwk_src = 7, data_len = 5, data = [2, 0, 3, 232, 0]\<rparr> of
      (ret, st', evs) \<Rightarrow> send_failure evs \<and> ret = 0) \<and>
   (case wifi_pkt_decoding \<lparr>node_addr = 100, adc0 = (\<lambda>n. 0)\<rparr> True power_wifi_init
          \<lparr>nwk_src = 7, data_len = 0, data = [2, 0, 0, 0, 0]\<rparr> of
      (ret, st', evs) \<Rightarrow> ret = 2 \<and> \<not> send_failure evs)"
  using decode_result_code [where e = "\<lparr>node_addr = 100, adc0 = (\<lambda>n. 0)\<rparr>" and tx_ok = False
          and st = power_wifi_init and pkt = "\<lparr>nwk_src = 7, data_len = 5, data = [2, 0, 3, 232, 0]\<rparr>"]
        decode_result_code [where e = "\<lparr>node_addr = 100, adc0 = (\<lambda>n. 0)\<rparr>" and tx_ok = True
          and st = power_wifi_init and pkt = "\<lparr>nwk_src = 7, data_len = 0, data = [2, 0, 0, 0, 0]\<rparr>"]
  by (simp add: wifi_pkt_decoding_def send_failure_def split: prod.splits)

text \<open>
  Claim C3 as stated fails: the master receives REQUEST_POWER from node 7, the
  reply GET_STATUS cannot be transmitted, and the result code is zero.
\<close>

theorem send_failure_returns_zero:
  "send_failure (snd (snd (wifi_pkt_decoding \<lparr>node_addr = 100, adc0 = (\<lambda>n. 0)\<rparr> False
       power_wifi_init \<lparr>nwk_src = 7, data_len = 1, data = [0]\<rparr>))) \<and>
   fst (wifi_pkt_decoding \<lparr>node_addr = 100, adc0 = (\<lambda>n. 0)\<rparr> False
       power_wifi_init \<lparr>nwk_src = 7, data_len = 1, data = [0]\<rparr>) = 0"
  by (simp add: wifi_pkt_decoding_def send_failure_def)

text \<open>
  The test \<open>if (!len)\<close> of the GIVE_STATUS case on the master: a declared data
  length of zero ends the call with the command byte as result and the message
  ``no status received!''; any other length, whether or not it covers the status
  bytes, gets the reply SCAN and the result zero.
\<close>

lemma give_status_len_zero:
  assumes "node_addr e = WIFI_MASTER_ADDR"
    and "data pkt ! 0 = WIFI_CMD_GIVE_STATUS"
    and "data_len pkt = 0"
  shows "wifi_pkt_decoding e tx_ok st pkt = (2, st, [PrErr ''no status received!''])"
  using assms by (simp add: wifi_pkt_decoding_def)

lemma give_status_len_nonzero:
  assumes "node_addr e = WIFI_MASTER_ADDR"
    and "data pkt ! 0 = WIFI_CMD_GIVE_STATUS"
    and "data_len pkt \<noteq> 0"
  shows "fst (wifi_pkt_decoding e tx_ok st pkt) = 0"
    and "outbound (snd (snd (wifi_pkt_decoding e tx_ok st pkt))) = [(nwk_src pkt, [WIFI_CMD_SCAN])]"
  using assms by (simp_all add: wifi_pkt_decoding_def outbound_def List.map_filter_simps)

text \<open>
  Claim C7.  The master receives from node 7 a GIVE_STATUS packet that consists
  of the command byte alone (declared data length 1, no status byte after it).
  \<open>wifi_pkt_decoding\<close> returns zero and hands the reply SCAN for node 7 to
  \<open>wireless_send\<close>; the variables are left as they were.
\<close>

theorem give_status_without_status_bytes:
  "wifi_pkt_decoding \<lparr>node_addr = 100, adc0 = (\<lambda>n. 0)\<rparr> True power_wifi_init
       \<lparr>nwk_src = 7, data_len = 1, data = [2, 0, 0, 0, 0]\<rparr> =
     (0, power_wifi_init, [WirelessSend 7 [5] True]) \<and>
   outbound (snd (snd (wifi_pkt_decoding \<lparr>node_addr = 100, adc0 = (\<lambda>n. 0)\<rparr> True power_wifi_init
       \<lparr>nwk_src = 7, data_len = 1, data = [2, 0, 0, 0, 0]\<rparr>))) = [(7, [5])]"
  by (simp add: wifi_pkt_decoding_def outbound_def List.map_filter_simps)

text \<open>
  Claim C10.  For a packet whose command byte is MOVE, the declared data length
  plays no part: replacing it by any other value changes nothing in the result,
  and the word handed to the motion queue is built from the bytes at buffer
  indices 1 and 2.  The witness is a packet of declared length 1.
\<close>

theorem move_ignores_data_len:
  assumes "data pkt ! 0 = WIFI_CMD_MOVE"
    and "WIFI_MOVE_IDX_PARAM2 < length (data pkt)"
  shows "wifi_pkt_decoding e tx_ok st (pkt\<lparr>data_len := l\<rparr>) = wifi_pkt_decoding e tx_ok st pkt \<and>
         motion_words (snd (snd (wifi_pkt_decoding e tx_ok st pkt))) =
           [push_bit 24 (ucast WIFI_CMD_MOVE) OR
            push_bit 16 (ucast (data pkt ! WIFI_MOVE_IDX_PARAM1)) OR
            push_bit 8 (ucast (data pkt ! WIFI_MOVE_IDX_PARAM2))]"
  using assms
  by (simp add: decode_move Let_def motion_words_def List.map_filter_simps)

theorem move_ignores_data_len_witness:
  "motion_words (snd (snd (wifi_pkt_decoding \<lparr>node_addr = 7, adc0 = (\<lambda>n. 0)\<rparr> True power_wifi_init
       \<lparr>nwk_src = 100, data_len = 1, data = [6, 0xAA, 0xBB, 0]\<rparr>))) = [0x06AABB00]"
  using move_ignores_data_len [where pkt = "\<lparr>nwk_src = 100, data_len = 1, data = [6, 0xAA, 0xBB, 0]\<rparr>"
          and e = "\<lparr>node_addr = 7, adc0 = (\<lambda>n. 0)\<rparr>" and tx_ok = True
          and st = power_wifi_init and l = 1]
  by simp

section \<open>Properties of the motion controller\<close>

subsection \<open>The position of the greatest sample\<close>

lemma unat_succ_u8: "unat (c :: u8) < 10 \<Longrightarrow> unat (c + 1) = Suc (unat c)"
  by (simp add: unat_word_ariths)

lemma get_max_energy_pos_loop_inv:
  assumes "unat c \<le> ENERGY_SAMPLES"
    and "unat m < unat c \<or> (c = 0 \<and> m = 0)"
    and "\<forall>j<unat c. arr ! j \<le> arr ! unat m"
    and "\<forall>j<unat m. arr ! j < arr ! unat m"
  shows "unat (get_max_energy_pos_loop arr m c) < ENERGY_SAMPLES \<and>
         (\<forall>j<ENERGY_SAMPLES. arr ! j \<le> arr ! unat (get_max_energy_pos_loop arr m c)) \<and>
         (\<forall>j<unat (get_max_energy_pos_loop arr m c). arr ! j < arr ! unat (get_max_energy_pos_loop arr m c))"
  using assms
proof (induction arr m c rule: get_max_energy_pos_loop.induct)
  case (1 arr m c)
  show ?case
  proof (cases "unat c < ENERGY_SAMPLES")
    case False
    with "1.prems" have c10: "unat c = 10" by simp
    with "1.prems" have "unat m < 10" by (auto simp: unat_eq_0)
    with False c10 "1.prems" show ?thesis
      by (subst (1 2 3 4) get_max_energy_pos_loop.simps) simp
  next
    case True
    let ?m' = "if arr ! unat c > arr ! unat m then c else m"
    have suc: "unat (c + 1) = Suc (unat c)" using True by (rule unat_succ_u8)
    have p1: "unat (c + 1) \<le> ENERGY_SAMPLES" using True suc by simp
    have p2: "unat ?m' < unat (c + 1) \<or> (c + 1 = 0 \<and> ?m' = 0)"
      using "1.prems"(2) suc by auto
    have p3: "\<forall>j<unat (c + 1). arr ! j \<le> arr ! unat ?m'"
      using "1.prems"(3) suc by (auto simp: less_Suc_eq)
    have p4: "\<forall>j<unat ?m'. arr ! j < arr ! unat ?m'"
      using "1.prems"(3,4) by (auto intro: le_less_trans)
    from "1.IH" [OF True p1 p2 p3 p4] True show ?thesis
      by (subst (1 2 3 4) get_max_energy_pos_loop.simps) simp
  qed
qed


text \<open>
  Claim C5.  With the buffer \<open>energyArray\<close> as declared (\<open>ENERGY_SAMPLES * 2\<close>
  entries, the first \<open>ENERGY_SAMPLES\<close> of them written by a completed scan),
  \<open>get_max_energy_pos\<close> returns \<open>ADC_SAMPLE_PERIOD / 2\<close> times an index \<open>m\<close> below
  \<open>ENERGY_SAMPLES\<close> such that no sample is greater than sample \<open>m\<close> and every
  sample before \<open>m\<close> is strictly smaller: the first index of the greatest value.
\<close>

theorem get_max_energy_pos_argmax:
  assumes "length (energyArray st) = ENERGY_SAMPLES * 2"
  shows "\<exists>m<ENERGY_SAMPLES.
           (\<forall>j<ENERGY_SAMPLES. energyArray st ! j \<le> energyArray st ! m) \<and>
           (\<forall>j<m. energyArray st ! j < energyArray st ! m) \<and>
           unat (get_max_energy_pos st) = (ADC_SAMPLE_PERIOD div 2) * m"
proof -
  let ?r = "get_max_energy_pos_loop (energyArray st) 0 0"
  have inv: "unat ?r < ENERGY_SAMPLES \<and>
         (\<forall>j<ENERGY_SAMPLES. energyArray st ! j \<le> energyArray st ! unat ?r) \<and>
         (\<forall>j<unat ?r. energyArray st ! j < energyArray st ! unat ?r)"
    by (rule get_max_energy_pos_loop_inv) simp_all
  then have "unat (get_max_energy_pos st) = (ADC_SAMPLE_PERIOD div 2) * unat ?r"
    by (simp add: get_max_energy_pos_def unat_word_ariths)
  with inv show ?thesis by blast
qed

theorem get_max_energy_pos_argmax_witness:
  "get_max_energy_pos (power_wifi_init\<lparr>energyArray :=
       [1, 5, 3, 9, 9, 2, 0, 0, 0, 0, 0, 0, 0, 0, 0, 0, 0, 0, 0, 0]\<rparr>) = 60"
proof -
  let ?arr = "[1, 5, 3, 9, 9, 2, 0, 0, 0, 0, 0, 0, 0, 0, 0, 0, 0, 0, 0, 0] :: real list"
  let ?st = "power_wifi_init\<lparr>energyArray := ?arr\<rparr>"
  have len: "length (energyArray ?st) = ENERGY_SAMPLES * 2" by simp
  from get_max_energy_pos_argmax [OF len]
  obtain m where m: "m < 10" "\<forall>j<10. ?arr ! j \<le> ?arr ! m" "\<forall>j<m. ?arr ! j < ?arr ! m"
    and r: "unat (get_max_energy_pos ?st) = 20 * m"
    by auto
  from m(2) have "(3::nat) < 10 \<longrightarrow> ?arr ! 3 \<le> ?arr ! m" by (rule spec)
  then have ge: "?arr ! 3 \<le> ?arr ! m" by simp
  from m(1) have "m = 0 \<or> m = 1 \<or> m = 2 \<or> m = 3 \<or> m = 4 \<or> m = 5 \<or>
      m = 6 \<or> m = 7 \<or> m = 8 \<or> m = 9" by arith
  then consider "m = 0" | "m = 1" | "m = 2" | "m = 3" | "m = 4" | "m = 5"
    | "m = 6" | "m = 7" | "m = 8" | "m = 9" by blast
  then have "m = 3"
  proof cases
    case 5
    from m(3) have "(3::nat) < m \<longrightarrow> ?arr ! 3 < ?arr ! m" by (rule spec)
    with 5 show ?thesis by simp
  qed (use ge in simp_all)
  with r have "unat (get_max_energy_pos ?st) = 60" by simp
  then show ?thesis by (simp add: word_unat_eq_iff)
qed

subsection \<open>The pins and the position under \<open>toggleStep\<close>\<close>

lemma and_2_iff: "(x :: u32) AND 2 \<noteq> 0 \<longleftrightarrow> bit x 1"
  using and_exp_eq_0_iff_not_bit [of x 1] by simp

lemma and_8_iff: "(x :: u32) AND 8 \<noteq> 0 \<longleftrightarrow> bit x 3"
  using and_exp_eq_0_iff_not_bit [of x 3] by simp

lemma pins_toggleStep:
  "step_high (toggleStep st) = (\<not> step_high st)"
  "dir_cw (toggleStep st) = dir_cw st"
  by (simp_all add: toggleStep_def step_high_def dir_cw_def Let_def and_2_iff and_8_iff bit_simps)

lemma pins_setDirection:
  "step_high (setDirection d st) = step_high st"
  "dir_cw (setDirection d st) = d"
  by (simp_all add: setDirection_def step_high_def dir_cw_def and_2_iff and_8_iff bit_simps)

lemma pins_enableDrive:
  "step_high (enableDrive d st) = step_high st"
  "dir_cw (enableDrive d st) = dir_cw st"
  by (simp_all add: enableDrive_def step_high_def dir_cw_def and_2_iff and_8_iff bit_simps)

lemma unat_of_nat_u16: "n < 65536 \<Longrightarrow> unat (word_of_nat n :: u16) = n"
  by (simp add: unat_of_nat)

lemma pulse_view_toggleStep: "pulse_view (toggleStep st) = toggle_view (pulse_view st)"
proof -
  have dec: "0 < unat (current_pos st) \<Longrightarrow> unat (current_pos st - 1) = unat (current_pos st) - 1"
    by (simp add: unat_minus_one unat_gt_0)
  have m: "(unat (current_pos st) + 1) mod 200 < 65536"
    by (rule less_trans [of _ 200]) simp_all
  show ?thesis
    using dec m
    by (simp add: pulse_view_def pins_toggleStep)
       (simp add: toggleStep_def step_high_def dir_cw_def Let_def and_2_iff and_8_iff bit_simps
          unat_of_nat_u16)
qed


subsection \<open>What one pass of each loop leaves alone\<close>

lemma toggleStep_frame [simp]:
  "position (toggleStep st) = position st"
  "busy (toggleStep st) = busy st"
  "error (toggleStep st) = error st"
  "slave_boot_up (toggleStep st) = slave_boot_up st"
  "motion_queue (toggleStep st) = motion_queue st"
  "steps_todo (toggleStep st) = steps_todo st"
  "steps_todo2 (toggleStep st) = steps_todo2 st"
  "current_speed (toggleStep st) = current_speed st"
  "energyArray (toggleStep st) = energyArray st"
  "commandSequence (toggleStep st) = commandSequence st"
  "energyArray_idx (toggleStep st) = energyArray_idx st"
  "busy_bit (toggleStep st) = busy_bit st"
  "command (toggleStep st) = command st"
  "command_idx (toggleStep st) = command_idx st"
  "adc_calls (toggleStep st) = adc_calls st"
  "trace (toggleStep st) = trace st"
  by (simp_all add: toggleStep_def Let_def)

lemma setDirection_frame [simp]:
  "position (setDirection d st) = position st"
  "busy (setDirection d st) = busy st"
  "error (setDirection d st) = error st"
  "slave_boot_up (setDirection d st) = slave_boot_up st"
  "motion_queue (setDirection d st) = motion_queue st"
  "current_pos (setDirection d st) = current_pos st"
  "steps_todo (setDirection d st) = steps_todo st"
  "steps_todo2 (setDirection d st) = steps_todo2 st"
  "current_speed (setDirection d st) = current_speed st"
  "energyArray (setDirection d st) = energyArray st"
  "commandSequence (setDirection d st) = commandSequence st"
  "energyArray_idx (setDirection d st) = energyArray_idx st"
  "busy_bit (setDirection d st) = busy_bit st"
  "command (setDirection d st) = command st"
  "command_idx (setDirection d st) = command_idx st"
  "adc_calls (setDirection d st) = adc_calls st"
  "trace (setDirection d st) = trace st"
  by (simp_all add: setDirection_def)

lemma enableDrive_frame [simp]:
  "position (enableDrive d st) = position st"
  "busy (enableDrive d st) = busy st"
  "error (enableDrive d st) = error st"
  "slave_boot_up (enableDrive d st) = slave_boot_up st"
  "motion_queue (enableDrive d st) = motion_queue st"
  "current_pos (enableDrive d st) = current_pos st"
  "steps_todo (enableDrive d st) = steps_todo st"
  "steps_todo2 (enableDrive d st) = steps_todo2 st"
  "current_speed (enableDrive d st) = current_speed st"
  "energyArray (enableDrive d st) = energyArray st"
  "commandSequence (enableDrive d st) = commandSequence st"
  "energyArray_idx (enableDrive d st) = energyArray_idx st"
  "busy_bit (enableDrive d st) = busy_bit st"
  "command (enableDrive d st) = command st"
  "command_idx (enableDrive d st) = command_idx st"
  "adc_calls (enableDrive d st) = adc_calls st"
  "trace (enableDrive d st) = trace st"
  by (simp_all add: enableDrive_def)

lemma vTaskDelay_frame [simp]:
  "position (vTaskDelay t st) = position st"
  "busy (vTaskDelay t st) = busy st"
  "error (vTaskDelay t st) = error st"
  "slave_boot_up (vTaskDelay t st) = slave_boot_up st"
  "motion_queue (vTaskDelay t st) = motion_queue st"
  "current_pos (vTaskDelay t st) = current_pos st"
  "steps_todo (vTaskDelay t st) = steps_todo st"
  "steps_todo2 (vTaskDelay t st) = steps_todo2 st"
  "current_speed (vTaskDelay t st) = current_speed st"
  "energyArray (vTaskDelay t st) = energyArray st"
  "commandSequence (vTaskDelay t st) = commandSequence st"
  "energyArray_idx (vTaskDelay t st) = energyArray_idx st"
  "busy_bit (vTaskDelay t st) = busy_bit st"
  "command (vTaskDelay t st) = command st"
  "command_idx (vTaskDelay t st) = command_idx st"
  "fio (vTaskDelay t st) = fio st"
  "adc_calls (vTaskDelay t st) = adc_calls st"
  "trace (vTaskDelay t st) = trace st @ [(Delay t, busy_bit st)]"
  by (simp_all add: vTaskDelay_def)

lemma pulse_view_vTaskDelay [simp]: "pulse_view (vTaskDelay t st) = pulse_view st"
  by (simp add: pulse_view_def step_high_def dir_cw_def)

lemma pr_debug_frame [simp]:
  "position (pr_debug s st) = position st"
  "busy (pr_debug s st) = busy st"
  "error (pr_debug s st) = error st"
  "slave_boot_up (pr_debug s st) = slave_boot_up st"
  "motion_queue (pr_debug s st) = motion_queue st"
  "current_pos (pr_debug s st) = current_pos st"
  "steps_todo (pr_debug s st) = steps_todo st"
  "steps_todo2 (pr_debug s st) = steps_todo2 st"
  "current_speed (pr_debug s st) = current_speed st"
  "energyArray (pr_debug s st) = energyArray st"
  "commandSequence (pr_debug s st) = commandSequence st"
  "energyArray_idx (pr_debug s st) = energyArray_idx st"
  "busy_bit (pr_debug s st) = busy_bit st"
  "command (pr_debug s st) = command st"
  "command_idx (pr_debug s st) = command_idx st"
  "fio (pr_debug s st) = fio st"
  "adc_calls (pr_debug s st) = adc_calls st"
  "trace (pr_debug s st) = trace st @ [(Debug s, busy_bit st)]"
  by (simp_all add: pr_debug_def)

lemma pulse_view_pr_debug [simp]: "pulse_view (pr_debug s st) = pulse_view st"
  by (simp add: pulse_view_def step_high_def dir_cw_def)

lemma get_max_energy_pos_pr_debug [simp]:
  "get_max_energy_pos (pr_debug s st) = get_max_energy_pos st"
  by (simp add: get_max_energy_pos_def)

lemma scan_sample_frame [simp]:
  "position (scan_sample e st) = position st"
  "busy (scan_sample e st) = busy st"
  "error (scan_sample e st) = error st"
  "slave_boot_up (scan_sample e st) = slave_boot_up st"
  "motion_queue (scan_sample e st) = motion_queue st"
  "current_pos (scan_sample e st) = current_pos st"
  "steps_todo (scan_sample e st) = steps_todo st"
  "steps_todo2 (scan_sample e st) = steps_todo2 st"
  "current_speed (scan_sample e st) = current_speed st"
  "commandSequence (scan_sample e st) = commandSequence st"
  "busy_bit (scan_sample e st) = busy_bit st"
  "command (scan_sample e st) = command st"
  "command_idx (scan_sample e st) = command_idx st"
  "fio (scan_sample e st) = fio st"
  "trace (scan_sample e st) =
     trace st @ [(Delay 1000, busy_bit st), (Debug ''ADC sample'', busy_bit st)]"
  by (simp_all add: scan_sample_def Let_def)

lemma scan_sample_effect:
  "energyArray (scan_sample e st) =
     (energyArray st)[unat (energyArray_idx st) :=
        real (unat (adc_sum32 (adc0 e) (adc_calls st) ADC_AVERAGE_DEPTH 0 div 2000))]"
  "energyArray_idx (scan_sample e st) = energyArray_idx st + 1"
  "adc_calls (scan_sample e st) = adc_calls st + ADC_AVERAGE_DEPTH"
  by (simp_all add: scan_sample_def Let_def)

lemma pulse_view_scan_sample [simp]: "pulse_view (scan_sample e st) = pulse_view st"
  by (simp add: pulse_view_def step_high_def dir_cw_def)


lemma scan_step_frame [simp]:
  "position (scan_step e f st) = position st"
  "busy (scan_step e f st) = busy st"
  "error (scan_step e f st) = error st"
  "slave_boot_up (scan_step e f st) = slave_boot_up st"
  "motion_queue (scan_step e f st) = motion_queue st"
  "steps_todo (scan_step e f st) = steps_todo st - 1"
  "steps_todo2 (scan_step e f st) = steps_todo2 st"
  "current_speed (scan_step e f st) = current_speed st"
  "commandSequence (scan_step e f st) = commandSequence st"
  "busy_bit (scan_step e f st) = busy_bit st"
  "command (scan_step e f st) = command st"
  "command_idx (scan_step e f st) = command_idx st"
  by (simp_all add: scan_step_def Let_def)

lemma seek_step_frame [simp]:
  "position (seek_step st) = position st"
  "busy (seek_step st) = busy st"
  "error (seek_step st) = error st"
  "slave_boot_up (seek_step st) = slave_boot_up st"
  "motion_queue (seek_step st) = motion_queue st"
  "steps_todo (seek_step st) = steps_todo st - 1"
  "steps_todo2 (seek_step st) = steps_todo2 st"
  "current_speed (seek_step st) = current_speed st"
  "energyArray (seek_step st) = energyArray st"
  "commandSequence (seek_step st) = commandSequence st"
  "energyArray_idx (seek_step st) = energyArray_idx st"
  "busy_bit (seek_step st) = busy_bit st"
  "command (seek_step st) = command st"
  "command_idx (seek_step st) = command_idx st"
  "adc_calls (seek_step st) = adc_calls st"
  "trace (seek_step st) = trace st @ [(Delay (unat (current_speed st)), busy_bit st)]"
  by (simp_all add: seek_step_def Let_def)

lemma move_step_frame [simp]:
  "position (move_step st) = position st"
  "busy (move_step st) = busy st"
  "error (move_step st) = error st"
  "slave_boot_up (move_step st) = slave_boot_up st"
  "motion_queue (move_step st) = motion_queue st"
  "steps_todo (move_step st) = steps_todo st"
  "steps_todo2 (move_step st) = steps_todo2 st - 1"
  "current_speed (move_step st) = current_speed st"
  "energyArray (move_step st) = energyArray st"
  "commandSequence (move_step st) = commandSequence st"
  "energyArray_idx (move_step st) = energyArray_idx st"
  "busy_bit (move_step st) = busy_bit st"
  "command (move_step st) = command st"
  "command_idx (move_step st) = command_idx st"
  "adc_calls (move_step st) = adc_calls st"
  "trace (move_step st) = trace st @ [(Delay (unat (current_speed st)), busy_bit st)]"
  by (simp_all add: move_step_def Let_def)

lemma pulse_view_steps [simp]:
  "pulse_view (scan_step e f st) = toggle_view (pulse_view st)"
  "pulse_view (seek_step st) = toggle_view (pulse_view st)"
  "pulse_view (move_step st) = toggle_view (pulse_view st)"
proof -
  have upd: "\<And>s v. pulse_view (s\<lparr>steps_todo := v\<rparr>) = pulse_view s"
    "\<And>s v. pulse_view (s\<lparr>steps_todo2 := v\<rparr>) = pulse_view s"
    by (simp_all add: pulse_view_def step_high_def dir_cw_def)
  show "pulse_view (scan_step e f st) = toggle_view (pulse_view st)"
    by (simp add: scan_step_def Let_def upd pulse_view_toggleStep)
  show "pulse_view (seek_step st) = toggle_view (pulse_view st)"
    by (simp add: seek_step_def Let_def upd pulse_view_toggleStep)
  show "pulse_view (move_step st) = toggle_view (pulse_view st)"
    by (simp add: move_step_def Let_def upd pulse_view_toggleStep)
qed

subsection \<open>Loop invariants\<close>

lemma scan_loop_invariant:
  assumes "\<And>f s. P s \<Longrightarrow> P (scan_step e f s)" and "P st"
  shows "P (scan_loop e f st)"
  using assms
proof (induction e f st rule: scan_loop.induct)
  case (1 e f st)
  show ?case
  proof (cases "0 < sint (steps_todo st)")
    case True
    have "P (scan_step e f st)" using "1.prems"(2) by (rule "1.prems"(1))
    with True "1.prems"(1) have "P (scan_loop e (f + 1) (scan_step e f st))"
      by (rule "1.IH")
    with True show ?thesis by (subst scan_loop.simps) simp
  next
    case False
    with 1 show ?thesis by (subst scan_loop.simps) simp
  qed
qed

lemma seek_loop_invariant:
  assumes "\<And>s. P s \<Longrightarrow> P (seek_step s)" and "P st"
  shows "P (seek_loop st)"
  using assms(2)
proof (induction st rule: seek_loop.induct)
  case (1 st)
  show ?case
  proof (cases "0 < sint (steps_todo st)")
    case True
    have "P (seek_step st)" using "1.prems" by (rule assms(1))
    with True have "P (seek_loop (seek_step st))" by (rule "1.IH")
    with True show ?thesis by (subst seek_loop.simps) simp
  next
    case False
    with 1 show ?thesis by (subst seek_loop.simps) simp
  qed
qed

lemma move_loop_invariant:
  assumes "\<And>s. P s \<Longrightarrow> P (move_step s)" and "P st"
  shows "P (move_loop st)"
  using assms(2)
proof (induction st rule: move_loop.induct)
  case (1 st)
  show ?case
  proof (cases "0 < sint (steps_todo2 st)")
    case True
    have "P (move_step st)" using "1.prems" by (rule assms(1))
    with True have "P (move_loop (move_step st))" by (rule "1.IH")
    with True show ?thesis by (subst move_loop.simps) simp
  next
    case False
    with 1 show ?thesis by (subst move_loop.simps) simp
  qed
qed


subsection \<open>Pulse trains\<close>

lemma sint_dec16: "0 < sint (w :: u16) \<Longrightarrow> sint (w - 1) = sint w - 1"
proof -
  assume pos: "0 < sint w"
  have "sint w < 2 ^ 15" using sint_less [of w] by simp
  with pos show ?thesis
    by (simp add: sint_word_ariths signed_take_bit_int_eq_self)
qed

lemma sint_dec8: "0 < sint (w :: u8) \<Longrightarrow> sint (w - 1) = sint w - 1"
proof -
  assume pos: "0 < sint w"
  have "sint w < 2 ^ 7" using sint_less [of w] by simp
  with pos show ?thesis
    by (simp add: sint_word_ariths signed_take_bit_int_eq_self)
qed

lemma funpow_pred: "0 < n \<Longrightarrow> (f ^^ (n - Suc 0)) (f x) = (f ^^ n) x"
  by (cases n) (simp_all add: funpow_swap1)

lemma pulse_view_scan_loop:
  "pulse_view (scan_loop e f st) = (toggle_view ^^ nat (sint (steps_todo st))) (pulse_view st)"
proof (induction e f st rule: scan_loop.induct)
  case (1 e f st)
  show ?case
  proof (cases "0 < sint (steps_todo st)")
    case True
    then have "nat (sint (steps_todo st - 1)) = nat (sint (steps_todo st)) - 1"
      by (simp add: sint_dec16)
    with True "1.IH" show ?thesis
      by (subst scan_loop.simps) (simp add: funpow_pred)
  next
    case False
    then show ?thesis by (subst scan_loop.simps) simp
  qed
qed

lemma pulse_view_seek_loop:
  "pulse_view (seek_loop st) = (toggle_view ^^ nat (sint (steps_todo st))) (pulse_view st)"
proof (induction st rule: seek_loop.induct)
  case (1 st)
  show ?case
  proof (cases "0 < sint (steps_todo st)")
    case True
    then have "nat (sint (steps_todo st - 1)) = nat (sint (steps_todo st)) - 1"
      by (simp add: sint_dec16)
    with True "1.IH" show ?thesis
      by (subst seek_loop.simps) (simp add: funpow_pred)
  next
    case False
    then show ?thesis by (subst seek_loop.simps) simp
  qed
qed

lemma pulse_view_move_loop:
  "pulse_view (move_loop st) = (toggle_view ^^ nat (sint (steps_todo2 st))) (pulse_view st)"
proof (induction st rule: move_loop.induct)
  case (1 st)
  show ?case
  proof (cases "0 < sint (steps_todo2 st)")
    case True
    then have "nat (sint (steps_todo2 st - 1)) = nat (sint (steps_todo2 st)) - 1"
      by (simp add: sint_dec8)
    with True "1.IH" show ?thesis
      by (subst move_loop.simps) (simp add: funpow_pred)
  next
    case False
    then show ?thesis by (subst move_loop.simps) simp
  qed
qed

lemma toggle_view_funpow:
  assumes "p < STEPS_PER_REV"
  shows "(toggle_view ^^ n) (high, cw, p) =
           (high \<noteq> odd n, cw,
            (p + (if cw then 1 else STEPS_PER_REV - 1) * edges high n) mod STEPS_PER_REV)"
proof (induction n)
  case 0
  from assms show ?case by (simp add: edges_def)
next
  case (Suc n)
  define d :: nat where "d = (if cw then 1 else STEPS_PER_REV - 1)"
  define k where "k = edges high n"
  define q where "q = (p + d * k) mod STEPS_PER_REV"
  have q: "q < STEPS_PER_REV" by (simp add: q_def)
  have IH: "(toggle_view ^^ n) (high, cw, p) = (high \<noteq> odd n, cw, q)"
    using Suc by (simp add: q_def d_def k_def)
  show ?case
  proof (cases "high \<noteq> odd n")
    case True
    then have "edges high (Suc n) = k"
      by (auto simp: edges_def k_def elim: evenE oddE)
    moreover from True IH have "(toggle_view ^^ Suc n) (high, cw, p) = (False, cw, q)"
      by simp
    moreover from True have "(high \<noteq> odd (Suc n)) = False" by auto
    ultimately show ?thesis by (simp add: q_def d_def)
  next
    case False
    then have e: "edges high (Suc n) = Suc k"
      by (auto simp: edges_def k_def elim: evenE oddE)
    have step: "(if cw then (q + 1) mod STEPS_PER_REV
                 else if 0 < q then q - 1 else STEPS_PER_REV - 1) = (q + d) mod STEPS_PER_REV"
    proof (cases cw)
      case True
      then show ?thesis by (simp add: d_def)
    next
      case cw: False
      then have "d = 199" by (simp add: d_def)
      moreover have "(if 0 < q then q - 1 else 199) = (q + 199) mod 200"
      proof (cases q)
        case 0
        then show ?thesis by simp
      next
        case (Suc r)
        with q have "r < 200" by simp
        moreover have "Suc r + 199 = r + 200" by simp
        ultimately have "(Suc r + 199) mod 200 = r" by (simp only: mod_add_self2 mod_less)
        with Suc show ?thesis by simp
      qed
      ultimately show ?thesis using cw by (simp split: if_splits)
    qed
    have "(q + d) mod STEPS_PER_REV = (p + d * Suc k) mod STEPS_PER_REV"
    proof -
      have "(q + d) mod STEPS_PER_REV = ((p + d * k) + d) mod STEPS_PER_REV"
        unfolding q_def by (rule mod_add_left_eq)
      also have "(p + d * k) + d = p + d * Suc k" by simp
      finally show ?thesis .
    qed
    with step have new: "(if cw then (q + 1) mod STEPS_PER_REV
                 else if 0 < q then q - 1 else STEPS_PER_REV - 1) = (p + d * Suc k) mod STEPS_PER_REV"
      by simp
    from False IH have "(toggle_view ^^ Suc n) (high, cw, p) =
        (True, cw, if cw then (q + 1) mod STEPS_PER_REV
                   else if 0 < q then q - 1 else STEPS_PER_REV - 1)"
      by simp
    moreover from False have "(high \<noteq> odd (Suc n)) = True" by auto
    ultimately show ?thesis using new e by (simp add: d_def)
  qed
qed


subsection \<open>Invariants of the motion task\<close>

lemma toggle_view_range: "snd (snd v) < STEPS_PER_REV \<Longrightarrow> snd (snd (toggle_view v)) < STEPS_PER_REV"
  by (cases v) auto

lemma current_pos_pulse_view: "unat (current_pos st) = snd (snd (pulse_view st))"
  by (simp add: pulse_view_def)

lemma range_steps:
  "unat (current_pos st) < STEPS_PER_REV \<Longrightarrow> unat (current_pos (toggleStep st)) < STEPS_PER_REV"
  "unat (current_pos st) < STEPS_PER_REV \<Longrightarrow> unat (current_pos (scan_step e f st)) < STEPS_PER_REV"
  "unat (current_pos st) < STEPS_PER_REV \<Longrightarrow> unat (current_pos (seek_step st)) < STEPS_PER_REV"
  "unat (current_pos st) < STEPS_PER_REV \<Longrightarrow> unat (current_pos (move_step st)) < STEPS_PER_REV"
  by (simp_all add: current_pos_pulse_view pulse_view_toggleStep toggle_view_range)

lemma range_motion_scan:
  assumes "unat (current_pos st) < STEPS_PER_REV"
  shows "unat (current_pos (motion_scan e st)) < STEPS_PER_REV"
proof -
  have "\<And>s. unat (current_pos s) < STEPS_PER_REV \<Longrightarrow>
          unat (current_pos (scan_loop e 0 s)) < STEPS_PER_REV"
    by (rule scan_loop_invariant) (simp_all add: range_steps)
  moreover have "\<And>s. unat (current_pos s) < STEPS_PER_REV \<Longrightarrow>
          unat (current_pos (seek_loop s)) < STEPS_PER_REV"
    by (rule seek_loop_invariant) (simp_all add: range_steps)
  ultimately show ?thesis using assms by (simp add: motion_scan_def Let_def)
qed

lemma range_motion_move:
  assumes "unat (current_pos st) < STEPS_PER_REV"
  shows "unat (current_pos (motion_move rx st)) < STEPS_PER_REV"
proof -
  have "\<And>s. unat (current_pos s) < STEPS_PER_REV \<Longrightarrow>
          unat (current_pos (move_loop s)) < STEPS_PER_REV"
    by (rule move_loop_invariant) (simp_all add: range_steps)
  then show ?thesis using assms by (simp add: motion_move_def Let_def)
qed

lemma wifi_vars_loops:
  "busy (scan_loop e f st) = busy st \<and> position (scan_loop e f st) = position st"
  "busy (seek_loop st) = busy st \<and> position (seek_loop st) = position st"
  "busy (move_loop st) = busy st \<and> position (move_loop st) = position st"
proof -
  show "busy (scan_loop e f st) = busy st \<and> position (scan_loop e f st) = position st"
    by (rule scan_loop_invariant [where P = "\<lambda>s. busy s = busy st \<and> position s = position st"])
       simp_all
  show "busy (seek_loop st) = busy st \<and> position (seek_loop st) = position st"
    by (rule seek_loop_invariant [where P = "\<lambda>s. busy s = busy st \<and> position s = position st"])
       simp_all
  show "busy (move_loop st) = busy st \<and> position (move_loop st) = position st"
    by (rule move_loop_invariant [where P = "\<lambda>s. busy s = busy st \<and> position s = position st"])
       simp_all
qed

lemma wifi_vars_motion_switch:
  "busy (motion_switch e rx st) = busy st \<and> position (motion_switch e rx st) = position st"
  by (simp add: motion_switch_def motion_scan_def motion_move_def Let_def wifi_vars_loops)

lemma energy_length_loops:
  "length (energyArray (scan_loop e f st)) = length (energyArray st)"
  "energyArray (seek_loop st) = energyArray st"
  "energyArray (move_loop st) = energyArray st"
proof -
  have "\<And>f s. length (energyArray (scan_step e f s)) = length (energyArray s)"
    by (simp add: scan_step_def Let_def scan_sample_effect)
  then show "length (energyArray (scan_loop e f st)) = length (energyArray st)"
    by (intro scan_loop_invariant [where P = "\<lambda>s. length (energyArray s) = length (energyArray st)"])
       simp_all
  show "energyArray (seek_loop st) = energyArray st"
    by (rule seek_loop_invariant [where P = "\<lambda>s. energyArray s = energyArray st"]) simp_all
  show "energyArray (move_loop st) = energyArray st"
    by (rule move_loop_invariant [where P = "\<lambda>s. energyArray s = energyArray st"]) simp_all
qed

lemma energy_length_motion_switch:
  "length (energyArray (motion_switch e rx st)) = length (energyArray st)"
  by (simp add: motion_switch_def motion_scan_def motion_move_def Let_def energy_length_loops)

lemma extends_with_refl: "busy_bit st = b \<Longrightarrow> extends_with b st st"
  by (simp add: extends_with_def)

lemma extends_with_snoc:
  assumes "extends_with b st s" and "busy_bit s' = b" and "trace s' = trace s @ [(t, b)]"
  shows "extends_with b st s'"
proof -
  from assms(1) have pre: "take (length (trace st)) (trace s) = trace st"
    and al: "list_all (\<lambda>d. snd d = b) (drop (length (trace st)) (trace s))"
    by (simp_all add: extends_with_def)
  from pre have len: "length (trace st) \<le> length (trace s)"
    by (metis length_take min.cobounded1)
  with pre al assms(2,3) show ?thesis
    by (simp add: extends_with_def)
qed

lemma extends_with_same:
  assumes "extends_with b st s" and "busy_bit s' = b" and "trace s' = trace s"
  shows "extends_with b st s'"
  using assms by (simp add: extends_with_def)

subsection \<open>The samples of a sweep\<close>

lemma scan_step_energy:
  "energyArray (scan_step e f st) =
     (if f mod 40 = 0
      then (energyArray st)[unat (energyArray_idx st) := scan_reading e (adc_calls st)]
      else energyArray st)"
  "energyArray_idx (scan_step e f st) =
     (if f mod 40 = 0 then energyArray_idx st + 1 else energyArray_idx st)"
  "adc_calls (scan_step e f st) =
     (if f mod 40 = 0 then adc_calls st + ADC_AVERAGE_DEPTH else adc_calls st)"
  by (simp_all add: scan_step_def Let_def scan_sample_effect scan_reading_def)

lemma scan_loop_samples:
  assumes "sint (steps_todo st) = int n"
    and "i + n \<le> STEPS_FULL_REV"
    and "i \<le> 40 * q" and "40 * q < i + 40"
    and "unat (energyArray_idx st) = q"
    and "length (energyArray st) = 20"
  shows "\<exists>Q. i + n \<le> 40 * Q \<and> 40 * Q < i + n + 40 \<and> q \<le> Q \<and>
           unat (energyArray_idx (scan_loop e (int i) st)) = Q \<and>
           adc_calls (scan_loop e (int i) st) = adc_calls st + ADC_AVERAGE_DEPTH * (Q - q) \<and>
           length (energyArray (scan_loop e (int i) st)) = 20 \<and>
           (\<forall>k. energyArray (scan_loop e (int i) st) ! k =
                 (if q \<le> k \<and> k < Q
                  then scan_reading e (adc_calls st + ADC_AVERAGE_DEPTH * (k - q))
                  else energyArray st ! k))"
  using assms
proof (induction n arbitrary: i q st)
  case 0
  then have "scan_loop e (int i) st = st" by (subst scan_loop.simps) simp
  with 0 show ?case by (intro exI [of _ q]) simp
next
  case (Suc n)
  define s1 where "s1 = scan_step e (int i) st"
  define r where "r = scan_loop e (int (Suc i)) s1"
  from Suc.prems(1) have pos: "0 < sint (steps_todo st)" by simp
  then have unfold: "scan_loop e (int i) st = r"
    unfolding r_def s1_def by (subst scan_loop.simps) (simp add: add.commute)
  from pos Suc.prems(1) have s1: "sint (steps_todo s1) = int n"
    by (simp add: s1_def sint_dec16)
  from Suc.prems(2) have b1: "Suc i + n \<le> STEPS_FULL_REV" by simp
  have len1: "length (energyArray s1) = 20"
    using Suc.prems(6) by (simp add: s1_def scan_step_energy)
  have "int i mod 40 = int (i mod 40)" by (simp add: zmod_int)
  then have modint: "(int i mod 40 = 0) = (i mod 40 = 0)" by simp
  show ?case
  proof (cases "i mod 40 = 0")
    case True
    then obtain c where c: "i = 40 * c" by (auto elim: dvdE simp: mod_eq_0_iff_dvd)
    with Suc.prems(3,4) have qc: "q = c" by simp
    with c Suc.prems(2) have q9: "q \<le> 9" by simp
    have idx1: "unat (energyArray_idx s1) = Suc q"
      using True Suc.prems(5) q9 by (simp add: s1_def scan_step_energy modint unat_word_ariths)
    have lo: "Suc i \<le> 40 * Suc q" and hi: "40 * Suc q < Suc i + 40"
      using c qc by simp_all
    from Suc.IH [OF s1 b1 lo hi idx1 len1]
    obtain Q where Q: "Suc i + n \<le> 40 * Q" "40 * Q < Suc i + n + 40" "Suc q \<le> Q"
      "unat (energyArray_idx r) = Q"
      "adc_calls r = adc_calls s1 + ADC_AVERAGE_DEPTH * (Q - Suc q)"
      "length (energyArray r) = 20"
      and arr: "\<And>k. energyArray r ! k =
                 (if Suc q \<le> k \<and> k < Q
                  then scan_reading e (adc_calls s1 + ADC_AVERAGE_DEPTH * (k - Suc q))
                  else energyArray s1 ! k)"
      unfolding r_def by blast
    have calls1: "adc_calls s1 = adc_calls st + ADC_AVERAGE_DEPTH"
      using True by (simp add: s1_def scan_step_energy modint)
    have arr1: "energyArray s1 = (energyArray st)[q := scan_reading e (adc_calls st)]"
      using True Suc.prems(5) by (simp add: s1_def scan_step_energy modint)
    have "energyArray r ! k =
                 (if q \<le> k \<and> k < Q
                  then scan_reading e (adc_calls st + ADC_AVERAGE_DEPTH * (k - q))
                  else energyArray st ! k)" for k
    proof (cases "k = q")
      case True
      with Q(3) Suc.prems(6) q9 show ?thesis by (simp add: arr arr1)
    next
      case False
      have "Suc q \<le> k \<Longrightarrow>
          ADC_AVERAGE_DEPTH + ADC_AVERAGE_DEPTH * (k - Suc q) = ADC_AVERAGE_DEPTH * (k - q)"
        by simp
      with False show ?thesis by (auto simp: arr arr1 calls1 add.assoc)
    qed
    moreover have "adc_calls s1 + ADC_AVERAGE_DEPTH * (Q - Suc q) =
        adc_calls st + ADC_AVERAGE_DEPTH * (Q - q)"
      using Q(3) calls1 by simp
    ultimately show ?thesis
      using Q unfold by (intro exI [of _ Q]) simp
  next
    case False
    have "i \<noteq> 40 * q" using False by auto
    with Suc.prems(3,4) have lo: "Suc i \<le> 40 * q" and hi: "40 * q < Suc i + 40"
      by simp_all
    have idx1: "unat (energyArray_idx s1) = q"
      using False Suc.prems(5) by (simp add: s1_def scan_step_energy modint)
    from Suc.IH [OF s1 b1 lo hi idx1 len1]
    obtain Q where Q: "Suc i + n \<le> 40 * Q" "40 * Q < Suc i + n + 40" "q \<le> Q"
      "unat (energyArray_idx r) = Q"
      "adc_calls r = adc_calls s1 + ADC_AVERAGE_DEPTH * (Q - q)"
      "length (energyArray r) = 20"
      "\<forall>k. energyArray r ! k =
                 (if q \<le> k \<and> k < Q
                  then scan_reading e (adc_calls s1 + ADC_AVERAGE_DEPTH * (k - q))
                  else energyArray s1 ! k)"
      unfolding r_def by blast
    moreover have "adc_calls s1 = adc_calls st" "energyArray s1 = energyArray st"
      using False by (simp_all add: s1_def scan_step_energy modint)
    ultimately show ?thesis
      using unfold by (intro exI [of _ Q]) simp
  qed
qed


lemma adc_sum32_sum:
  "adc_sum32 f c n acc = acc + word_of_nat (\<Sum>j<n. unat (f (c + j)))"
proof (induction n arbitrary: c acc)
  case 0
  show ?case by simp
next
  case (Suc n)
  have "(\<Sum>j<Suc n. unat (f (c + j))) = unat (f c) + (\<Sum>j<n. unat (f (Suc c + j)))"
    by (simp add: sum.lessThan_Suc_shift del: sum.lessThan_Suc)
  with Suc show ?case by (simp add: add.assoc del: sum.lessThan_Suc)
qed

lemma adc_sum16_sum:
  "adc_sum16 f c n acc = acc + word_of_nat (\<Sum>j<n. unat (f (c + j)))"
proof (induction n arbitrary: c acc)
  case 0
  show ?case by simp
next
  case (Suc n)
  have "(\<Sum>j<Suc n. unat (f (c + j))) = unat (f c) + (\<Sum>j<n. unat (f (Suc c + j)))"
    by (simp add: sum.lessThan_Suc_shift del: sum.lessThan_Suc)
  with Suc show ?case by (simp add: add.assoc del: sum.lessThan_Suc)
qed

lemma sum_readings_bound: "(\<Sum>j<n. unat (f (c + j) :: u16)) \<le> n * 65535"
proof -
  have "unat (f (c + j)) \<le> 65535" for j
    using unsigned_less [of "f (c + j)", where 'a = nat] by simp
  then have "(\<Sum>j<n. unat (f (c + j))) \<le> (\<Sum>j<n. 65535)"
    by (intro sum_mono) simp
  then show ?thesis by simp
qed

lemma len32: "LENGTH(32) = 32"
  by simp

lemma scan_reading_average:
  "scan_reading e c = real ((\<Sum>j<ADC_AVERAGE_DEPTH. unat (adc0 e (c + j))) div ADC_AVERAGE_DEPTH)"
proof -
  let ?S = "\<Sum>j<ADC_AVERAGE_DEPTH. unat (adc0 e (c + j))"
  have "?S \<le> ADC_AVERAGE_DEPTH * 65535" by (rule sum_readings_bound)
  then have "?S < 2 ^ 32" by simp
  moreover have "unat (word_of_nat ?S :: u32) = ?S mod 2 ^ 32" by (simp only: unat_of_nat len32)
  ultimately have "unat (word_of_nat ?S :: u32) = ?S" by (simp only: mod_less)
  then show ?thesis
    by (simp add: scan_reading_def adc_sum32_sum unat_div del: of_nat_sum)
qed

lemma seek_loop_energy:
  "energyArray_idx (seek_loop st) = energyArray_idx st"
  "adc_calls (seek_loop st) = adc_calls st"
proof -
  show "energyArray_idx (seek_loop st) = energyArray_idx st"
    by (rule seek_loop_invariant [where P = "\<lambda>s. energyArray_idx s = energyArray_idx st"]) simp_all
  show "adc_calls (seek_loop st) = adc_calls st"
    by (rule seek_loop_invariant [where P = "\<lambda>s. adc_calls s = adc_calls st"]) simp_all
qed

lemma motion_scan_samples:
  assumes "length (energyArray st) = 20"
  shows "unat (energyArray_idx (motion_scan e st)) = ENERGY_SAMPLES"
    and "adc_calls (motion_scan e st) = adc_calls st + ADC_AVERAGE_DEPTH * ENERGY_SAMPLES"
    and "length (energyArray (motion_scan e st)) = 20"
    and "energyArray (motion_scan e st) ! k =
           (if k < ENERGY_SAMPLES then scan_reading e (adc_calls st + ADC_AVERAGE_DEPTH * k)
            else energyArray st ! k)"
proof -
  define s5 where "s5 = setDirection CW (enableDrive DRIVE_ON
      ((pr_debug ''SCANNING'' (st\<lparr>busy_bit := 1\<rparr>))
         \<lparr>steps_todo := word_of_nat STEPS_FULL_REV, energyArray_idx := 0\<rparr>))"
  have a1: "sint (steps_todo s5) = int STEPS_FULL_REV" by (simp add: s5_def)
  have a5: "unat (energyArray_idx s5) = 0" by (simp add: s5_def)
  have a6: "length (energyArray s5) = 20" using assms by (simp add: s5_def)
  from scan_loop_samples [where e = e and i = 0 and q = 0, OF a1 _ _ _ a5 a6]
  obtain Q where Q: "STEPS_FULL_REV \<le> 40 * Q" "40 * Q < STEPS_FULL_REV + 40"
    and r: "unat (energyArray_idx (scan_loop e 0 s5)) = Q"
      "adc_calls (scan_loop e 0 s5) = adc_calls s5 + ADC_AVERAGE_DEPTH * Q"
      "length (energyArray (scan_loop e 0 s5)) = 20"
      "\<And>k. energyArray (scan_loop e 0 s5) ! k =
          (if k < Q then scan_reading e (adc_calls s5 + ADC_AVERAGE_DEPTH * k) else energyArray s5 ! k)"
    by auto
  from Q have Q10: "Q = 10" by simp
  have final: "energyArray (motion_scan e st) = energyArray (scan_loop e 0 s5)"
    "energyArray_idx (motion_scan e st) = energyArray_idx (scan_loop e 0 s5)"
    "adc_calls (motion_scan e st) = adc_calls (scan_loop e 0 s5)"
    by (simp_all add: motion_scan_def Let_def s5_def energy_length_loops seek_loop_energy)
  have s5: "adc_calls s5 = adc_calls st" "energyArray s5 = energyArray st"
    by (simp_all add: s5_def)
  show "unat (energyArray_idx (motion_scan e st)) = ENERGY_SAMPLES"
    using r(1) Q10 final by simp
  show "adc_calls (motion_scan e st) = adc_calls st + ADC_AVERAGE_DEPTH * ENERGY_SAMPLES"
    using r(2) Q10 final s5 by simp
  show "length (energyArray (motion_scan e st)) = 20"
    using r(3) final by simp
  show "energyArray (motion_scan e st) ! k =
           (if k < ENERGY_SAMPLES then scan_reading e (adc_calls st + ADC_AVERAGE_DEPTH * k)
            else energyArray st ! k)"
    using r(4) [of k] Q10 final s5 by simp
qed

text \<open>
  Claim C9.  Whatever the buffer and its index held before, after \<open>case
  WIFI_CMD_SCAN\<close> the index is \<open>ENERGY_SAMPLES\<close>, entry \<open>k\<close> below \<open>ENERGY_SAMPLES\<close>
  is the average of the \<open>ADC_AVERAGE_DEPTH\<close> readings taken for sample \<open>k\<close> of this
  scan (the readings that follow the \<open>ADC_AVERAGE_DEPTH * k\<close> readings of the
  earlier samples), and the entries from \<open>ENERGY_SAMPLES\<close> on are untouched: the
  scan writes from index 0 and writes \<open>ENERGY_SAMPLES\<close> entries.
\<close>

theorem scan_overwrites_samples:
  assumes "length (energyArray st) = ENERGY_SAMPLES * 2"
  shows "unat (energyArray_idx (motion_scan e st)) = ENERGY_SAMPLES \<and>
         length (energyArray (motion_scan e st)) = ENERGY_SAMPLES * 2 \<and>
         (\<forall>k<ENERGY_SAMPLES. energyArray (motion_scan e st) ! k =
            real ((\<Sum>j<ADC_AVERAGE_DEPTH. unat (adc0 e (adc_calls st + ADC_AVERAGE_DEPTH * k + j)))
                  div ADC_AVERAGE_DEPTH)) \<and>
         (\<forall>k\<ge>ENERGY_SAMPLES. energyArray (motion_scan e st) ! k = energyArray st ! k)"
  using assms
  by (simp add: motion_scan_samples scan_reading_average)


theorem scan_overwrites_samples_witness:
  "unat (energyArray_idx (motion_scan \<lparr>node_addr = 7, adc0 = (\<lambda>n. 1000)\<rparr>
       (power_wifi_init\<lparr>energyArray := replicate 20 7, energyArray_idx := 10\<rparr>))) = 10 \<and>
   take 10 (energyArray (motion_scan \<lparr>node_addr = 7, adc0 = (\<lambda>n. 1000)\<rparr>
       (power_wifi_init\<lparr>energyArray := replicate 20 7, energyArray_idx := 10\<rparr>))) = replicate 10 1000 \<and>
   drop 10 (energyArray (motion_scan \<lparr>node_addr = 7, adc0 = (\<lambda>n. 1000)\<rparr>
       (power_wifi_init\<lparr>energyArray := replicate 20 7, energyArray_idx := 10\<rparr>))) = replicate 10 7"
proof -
  define e where "e = \<lparr>node_addr = 7, adc0 = (\<lambda>n. 1000)\<rparr>"
  define st where "st = power_wifi_init\<lparr>energyArray := replicate 20 7, energyArray_idx := 10\<rparr>"
  have len: "length (energyArray st) = ENERGY_SAMPLES * 2" by (simp add: st_def)
  from scan_overwrites_samples [OF len, of e]
  have idx: "unat (energyArray_idx (motion_scan e st)) = 10"
    and l: "length (energyArray (motion_scan e st)) = 20"
    and lo: "\<And>k. k < 10 \<Longrightarrow> energyArray (motion_scan e st) ! k = 1000"
    and hi: "\<And>k. 10 \<le> k \<Longrightarrow> energyArray (motion_scan e st) ! k = energyArray st ! k"
    by (simp_all add: e_def)
  have "take 10 (energyArray (motion_scan e st)) = replicate 10 1000"
    using l lo by (intro nth_equalityI) simp_all
  moreover have "drop 10 (energyArray (motion_scan e st)) = replicate 10 7"
    using l hi by (intro nth_equalityI) (simp_all add: st_def)
  ultimately show ?thesis using idx unfolding e_def st_def by simp
qed

subsection \<open>Reachable states\<close>

lemma decode_frame:
  "current_pos (fst (snd (wifi_pkt_decoding e tx_ok st pkt))) = current_pos st"
  "busy_bit (fst (snd (wifi_pkt_decoding e tx_ok st pkt))) = busy_bit st"
  "busy (fst (snd (wifi_pkt_decoding e tx_ok st pkt))) = busy st"
  "position (fst (snd (wifi_pkt_decoding e tx_ok st pkt))) = position st"
  "energyArray (fst (snd (wifi_pkt_decoding e tx_ok st pkt))) = energyArray st"
  "trace (fst (snd (wifi_pkt_decoding e tx_ok st pkt))) = trace st"
  "fio (fst (snd (wifi_pkt_decoding e tx_ok st pkt))) = fio st"
  by (simp_all add: wifi_pkt_decoding_def wifi_slave_heartbeat_def xQueueSend_def Let_def
        split: prod.splits)

lemma busy_bit_motion_switch:
  "busy_bit st = 0 \<Longrightarrow> busy_bit (motion_switch e rx st) = 0"
  by (simp add: motion_switch_def motion_scan_def motion_move_def Let_def)

lemma range_motion_switch:
  "unat (current_pos st) < STEPS_PER_REV \<Longrightarrow>
   unat (current_pos (motion_switch e rx st)) < STEPS_PER_REV"
  by (simp add: motion_switch_def range_motion_scan range_motion_move)

lemma reachable_invariant:
  assumes "reachable e st"
  shows "unat (current_pos st) < STEPS_PER_REV \<and> busy_bit st = 0 \<and> busy st = 0 \<and>
         position st = 0 \<and> length (energyArray st) = 20"
  using assms
proof (induction rule: reachable.induct)
  case boot
  show ?case by (simp add: power_wifi_init_def)
next
  case (decode st tx_ok pkt)
  then show ?case by (simp add: decode_frame)
next
  case (motion st)
  show ?case
  proof (cases "motion_queue st")
    case Nil
    with motion.IH show ?thesis by (simp add: motion_task_iter_def)
  next
    case (Cons rx rest)
    let ?s = "pr_debug ''recevied'' (st\<lparr>motion_queue := rest\<rparr>)"
    from motion.IH have "unat (current_pos ?s) < STEPS_PER_REV" "busy_bit ?s = 0" by simp_all
    then have "unat (current_pos (motion_switch e rx ?s)) < STEPS_PER_REV"
      "busy_bit (motion_switch e rx ?s) = 0"
      by (simp_all add: range_motion_switch busy_bit_motion_switch del: fw.simps)
    with Cons motion.IH show ?thesis
      by (simp add: motion_task_iter_def Let_def wifi_vars_motion_switch
            energy_length_motion_switch)
  qed
qed

subsection \<open>Net effect of a command on the motor\<close>

lemma pins_updates [simp]:
  "step_high (st\<lparr>busy_bit := b\<rparr>) = step_high st"
  "step_high (st\<lparr>steps_todo := w\<rparr>) = step_high st"
  "step_high (st\<lparr>steps_todo2 := v\<rparr>) = step_high st"
  "step_high (st\<lparr>energyArray_idx := i\<rparr>) = step_high st"
  "step_high (st\<lparr>motion_queue := q\<rparr>) = step_high st"
  "step_high (vTaskDelay t st) = step_high st"
  "step_high (pr_debug s st) = step_high st"
  "dir_cw (st\<lparr>busy_bit := b\<rparr>) = dir_cw st"
  "dir_cw (st\<lparr>steps_todo := w\<rparr>) = dir_cw st"
  "dir_cw (st\<lparr>steps_todo2 := v\<rparr>) = dir_cw st"
  "dir_cw (st\<lparr>energyArray_idx := i\<rparr>) = dir_cw st"
  "dir_cw (st\<lparr>motion_queue := q\<rparr>) = dir_cw st"
  "dir_cw (vTaskDelay t st) = dir_cw st"
  "dir_cw (pr_debug s st) = dir_cw st"
  by (simp_all add: step_high_def dir_cw_def)

lemma pulse_view_busy_bit [simp]: "pulse_view (st\<lparr>busy_bit := b\<rparr>) = pulse_view st"
  by (simp add: pulse_view_def)

lemma pulse_view_setDirection: "pulse_view (setDirection d st) = (step_high st, d, unat (current_pos st))"
  by (simp add: pulse_view_def pins_setDirection)

lemma trace_move_loop:
  "trace (move_loop st) =
     trace st @ replicate (nat (sint (steps_todo2 st))) (Delay (unat (current_speed st)), busy_bit st)"
proof (induction st rule: move_loop.induct)
  case (1 st)
  show ?case
  proof (cases "0 < sint (steps_todo2 st)")
    case True
    then obtain m where m: "nat (sint (steps_todo2 st)) = Suc m"
      by (cases "nat (sint (steps_todo2 st))") simp_all
    with True have "nat (sint (steps_todo2 st - 1)) = m" by (simp add: sint_dec8)
    with True "1.IH" m show ?thesis
      by (subst move_loop.simps) simp
  next
    case False
    then show ?thesis by (subst move_loop.simps) simp
  qed
qed

text \<open>
  \<open>case WIFI_CMD_MOVE\<close>: with \<open>s\<close> the parameter as \<open>int8_t\<close> and \<open>n\<close> the value
  of \<open>steps_todo2\<close> after \<open>abs\<close>, the command makes \<open>n\<close> calls of \<open>toggleStep\<close> in
  the direction given by the sign of \<open>s\<close>, each followed by one suspension.
\<close>

lemma motion_move_effect:
  fixes rx st
  defines "s \<equiv> sint (ucast (PARAM1_UNPACK rx) :: u8)"
  defines "n \<equiv> nat (sint (word_of_int \<bar>s\<bar> :: u8))"
  shows "pulse_view (motion_move rx st) = (toggle_view ^^ n) (step_high st, 0 < s, unat (current_pos st))"
    and "trace (motion_move rx st) =
           trace st @ (Debug ''MOVING'', 1) # replicate n (Delay (unat (current_speed st)), 1)"
proof -
  define s2 where "s2 = pr_debug ''MOVING'' (st\<lparr>busy_bit := 1, steps_todo2 := ucast (PARAM1_UNPACK rx)\<rparr>)"
  define s4 where "s4 = (setDirection (0 < s) s2)\<lparr>steps_todo2 := word_of_int \<bar>s\<bar>\<rparr>"
  have mm: "motion_move rx st = (move_loop s4)\<lparr>busy_bit := 0\<rparr>"
    by (simp add: motion_move_def Let_def s4_def s2_def s_def)
  have pv: "pulse_view s4 = (step_high st, 0 < s, unat (current_pos st))"
    by (simp add: s4_def s2_def pulse_view_def pins_setDirection)
  have n: "nat (sint (steps_todo2 s4)) = n" by (simp add: s4_def n_def)
  show "pulse_view (motion_move rx st) = (toggle_view ^^ n) (step_high st, 0 < s, unat (current_pos st))"
    by (simp add: mm pulse_view_move_loop pv n)
  show "trace (motion_move rx st) =
           trace st @ (Debug ''MOVING'', 1) # replicate n (Delay (unat (current_speed st)), 1)"
    using n by (simp add: mm trace_move_loop) (simp add: s4_def s2_def)
qed

lemma get_max_energy_pos_cong:
  "energyArray s = energyArray s' \<Longrightarrow> get_max_energy_pos s = get_max_energy_pos s'"
  by (simp add: get_max_energy_pos_def)

lemma edges_full_rev: "edges high STEPS_FULL_REV = STEPS_PER_REV"
  by (simp add: edges_def)

lemma motion_scan_effect:
  fixes e st
  defines "delta \<equiv> uint (get_max_energy_pos (motion_scan e st)) - uint (current_pos st)"
  assumes range: "unat (current_pos st) < STEPS_PER_REV"
  shows "pulse_view (motion_scan e st) =
           (toggle_view ^^ nat delta) (step_high st, 0 < delta, unat (current_pos st))"
proof -
  define s5 where "s5 = setDirection CW (enableDrive DRIVE_ON
      ((pr_debug ''SCANNING'' (st\<lparr>busy_bit := 1\<rparr>))
         \<lparr>steps_todo := word_of_nat STEPS_FULL_REV, energyArray_idx := 0\<rparr>))"
  define s6 where "s6 = pr_debug ''max energy pos'' (scan_loop e 0 s5)"
  define s7 where "s7 = pr_debug ''currentPos'' (s6\<lparr>steps_todo :=
      word_of_int (uint (get_max_energy_pos s6) - uint (current_pos s6))\<rparr>)"
  define s9 where "s9 = setDirection (0 < sint (steps_todo s7)) (vTaskDelay 1000 s7)"
  have ms: "motion_scan e st = (pr_debug ''Scan ended at position'' (seek_loop s9))\<lparr>busy_bit := 0\<rparr>"
    by (simp add: motion_scan_def Let_def s9_def s7_def s6_def s5_def)
  have pv5: "pulse_view s5 = (step_high st, True, unat (current_pos st))"
    by (simp add: s5_def pulse_view_def pins_setDirection pins_enableDrive)
  have n5: "nat (sint (steps_todo s5)) = STEPS_FULL_REV" by (simp add: s5_def)
  have pv6: "pulse_view s6 = (step_high st, True, unat (current_pos st))"
    using range
    by (simp add: s6_def pulse_view_scan_loop pv5 n5 toggle_view_funpow edges_full_rev)
  then have pos6: "unat (current_pos s6) = unat (current_pos st)" and high6: "step_high s6 = step_high st"
    by (simp_all add: pulse_view_def)
  have "energyArray (motion_scan e st) = energyArray s6"
    by (simp add: ms s9_def s7_def energy_length_loops)
  then have gm: "get_max_energy_pos (motion_scan e st) = get_max_energy_pos s6"
    by (rule get_max_energy_pos_cong)
  from pos6 have "current_pos s6 = current_pos st" by (simp only: word_unat_eq_iff)
  then have d: "uint (get_max_energy_pos s6) - uint (current_pos s6) = delta"
    by (simp add: delta_def gm)
  from range have "int (unat (current_pos st)) < int STEPS_PER_REV"
    by (simp only: of_nat_less_iff)
  then have "uint (current_pos st) < 200" by simp
  moreover have "0 \<le> uint (current_pos st)" by simp
  moreover have "uint (get_max_energy_pos (motion_scan e st)) < 256"
    using unsigned_less [of "get_max_energy_pos (motion_scan e st)", where 'a = int] by simp
  moreover have "0 \<le> uint (get_max_energy_pos (motion_scan e st))" by simp
  ultimately have "- 32768 \<le> delta" "delta < 32768"
    unfolding delta_def by linarith+
  then have "sint (word_of_int delta :: u16) = delta"
    by (simp add: sint_sbintrunc' signed_take_bit_int_eq_self)
  with d have d7: "sint (steps_todo s7) = delta"
    by (simp add: s7_def)
  have pv9: "pulse_view s9 = (step_high st, 0 < delta, unat (current_pos st))"
  proof -
    have "step_high s7 = step_high st" "unat (current_pos s7) = unat (current_pos st)"
      by (simp_all add: s7_def high6 pos6)
    then show ?thesis
      by (simp add: s9_def d7 pulse_view_def pins_setDirection)
  qed
  have "steps_todo s9 = steps_todo s7" by (simp add: s9_def)
  with d7 have n9: "nat (sint (steps_todo s9)) = nat delta" by simp
  show ?thesis by (simp add: ms pulse_view_seek_loop pv9 n9)
qed


subsection \<open>Runs from start-up\<close>

lemma reachable_handle_packet: "reachable e st \<Longrightarrow> reachable e (handle_packet e st pkt)"
  unfolding handle_packet_def by (intro reachable.intros)

lemma decode_move_pkt:
  "length (motion_queue st) < MOTION_QUEUE_LEN \<Longrightarrow>
   fst (snd (wifi_pkt_decoding e tx_ok st (move_pkt b))) =
     st\<lparr>motion_queue := motion_queue st @ [0x06000000 OR push_bit 16 (ucast b)]\<rparr>"
  by (simp add: wifi_pkt_decoding_def xQueueSend_def move_pkt_def Let_def)

lemma move_word_unpack:
  "CMD_UNPACK (0x06000000 OR push_bit 16 (ucast (b :: u8))) = 6"
  "ucast (PARAM1_UNPACK (0x06000000 OR push_bit 16 (ucast (b :: u8)))) = b"
  using cmd_unpack_pack [of 6 b 0] param1_unpack_pack [of 6 b 0] by simp_all

text \<open>
  Claim C6.  In every reachable state \<open>current_pos\<close> is below \<open>STEPS_PER_REV\<close>;
  \<open>toggleStep\<close> keeps it below \<open>STEPS_PER_REV\<close>; the call that makes a forward
  step (step pin low, direction clockwise) takes \<open>STEPS_PER_REV - 1\<close> to 0, and
  the call that makes a backward step takes 0 to \<open>STEPS_PER_REV - 1\<close>.
\<close>

theorem position_stays_in_range:
  "(reachable e st \<longrightarrow> unat (current_pos st) < STEPS_PER_REV) \<and>
   (unat (current_pos st) < STEPS_PER_REV \<longrightarrow>
      unat (current_pos (toggleStep st)) < STEPS_PER_REV) \<and>
   (\<not> step_high st \<and> dir_cw st \<and> unat (current_pos st) = STEPS_PER_REV - 1 \<longrightarrow>
      unat (current_pos (toggleStep st)) = 0) \<and>
   (\<not> step_high st \<and> \<not> dir_cw st \<and> unat (current_pos st) = 0 \<longrightarrow>
      unat (current_pos (toggleStep st)) = STEPS_PER_REV - 1)"
proof -
  have "unat (current_pos (toggleStep st)) = snd (snd (toggle_view (pulse_view st)))"
    by (simp add: current_pos_pulse_view pulse_view_toggleStep)
  then show ?thesis
    by (auto simp: reachable_invariant range_steps pulse_view_def)
qed

theorem position_stays_in_range_witness:
  "unat (current_pos (toggleStep (power_wifi_init\<lparr>current_pos := 199, fio := DIRECTION_PIN\<rparr>))) = 0 \<and>
   unat (current_pos (toggleStep power_wifi_init)) = 199 \<and>
   unat (current_pos (handle_packet slave7 power_wifi_init (move_pkt 10))) < 200"
proof -
  have r: "reachable slave7 (handle_packet slave7 power_wifi_init (move_pkt 10))"
    by (intro reachable_handle_packet reachable.boot)
  have a: "\<not> step_high (power_wifi_init\<lparr>current_pos := 199, fio := DIRECTION_PIN\<rparr>)"
    "dir_cw (power_wifi_init\<lparr>current_pos := 199, fio := DIRECTION_PIN\<rparr>)"
    "unat (current_pos (power_wifi_init\<lparr>current_pos := 199, fio := DIRECTION_PIN\<rparr>)) = STEPS_PER_REV - 1"
    by (simp_all add: step_high_def dir_cw_def)
  have b: "\<not> step_high power_wifi_init" "\<not> dir_cw power_wifi_init"
    "unat (current_pos power_wifi_init) = 0"
    by (simp_all add: step_high_def dir_cw_def power_wifi_init_def)
  from position_stays_in_range [of slave7 "handle_packet slave7 power_wifi_init (move_pkt 10)"] r
  have "unat (current_pos (handle_packet slave7 power_wifi_init (move_pkt 10))) < 200" by simp
  moreover from position_stays_in_range [of slave7 "power_wifi_init\<lparr>current_pos := 199, fio := DIRECTION_PIN\<rparr>"] a
  have "unat (current_pos (toggleStep (power_wifi_init\<lparr>current_pos := 199, fio := DIRECTION_PIN\<rparr>))) = 0"
    by blast
  moreover from position_stays_in_range [of slave7 power_wifi_init] b
  have "unat (current_pos (toggleStep power_wifi_init)) = 199" by simp
  ultimately show ?thesis by simp
qed

subsection \<open>Where a scan leaves the motor\<close>

lemma scan_final_position:
  assumes "unat (current_pos st) < STEPS_PER_REV"
  shows "unat (current_pos (motion_scan e st)) =
           (if unat (get_max_energy_pos (motion_scan e st)) \<le> unat (current_pos st)
            then unat (current_pos st)
            else (unat (current_pos st) +
                  edges (step_high st)
                    (unat (get_max_energy_pos (motion_scan e st)) - unat (current_pos st)))
                 mod STEPS_PER_REV)"
proof -
  define best where "best = unat (get_max_energy_pos (motion_scan e st))"
  define p where "p = unat (current_pos st)"
  define delta where "delta = uint (get_max_energy_pos (motion_scan e st)) - uint (current_pos st)"
  have delta: "delta = int best - int p"
    by (simp add: delta_def best_def p_def)
  have pv: "pulse_view (motion_scan e st) = (toggle_view ^^ nat delta) (step_high st, 0 < delta, p)"
    unfolding delta_def p_def using assms by (rule motion_scan_effect)
  have p: "p < STEPS_PER_REV" using assms by (simp add: p_def)
  have "unat (current_pos (motion_scan e st)) =
      (p + (if 0 < delta then 1 else STEPS_PER_REV - 1) * edges (step_high st) (nat delta)) mod STEPS_PER_REV"
    by (simp add: current_pos_pulse_view pv toggle_view_funpow [OF p])
  also have "\<dots> = (if best \<le> p then p else (p + edges (step_high st) (best - p)) mod STEPS_PER_REV)"
  proof (cases "best \<le> p")
    case True
    then have "nat delta = 0" by (simp add: delta)
    with True p show ?thesis by (simp add: edges_def delta)
  next
    case False
    then have "nat delta = best - p" "0 < delta" by (simp_all add: delta)
    with False show ?thesis by simp
  qed
  finally show ?thesis by (simp add: best_def p_def)
qed

lemma get_max_energy_pos_flat:
  assumes "\<And>k. k < ENERGY_SAMPLES \<Longrightarrow> energyArray st ! k = c"
  shows "get_max_energy_pos st = 0"
proof -
  let ?r = "get_max_energy_pos_loop (energyArray st) 0 0"
  have inv: "unat ?r < ENERGY_SAMPLES \<and>
         (\<forall>j<ENERGY_SAMPLES. energyArray st ! j \<le> energyArray st ! unat ?r) \<and>
         (\<forall>j<unat ?r. energyArray st ! j < energyArray st ! unat ?r)"
    by (rule get_max_energy_pos_loop_inv) simp_all
  have "unat ?r = 0"
  proof (rule ccontr)
    assume "unat ?r \<noteq> 0"
    then have "0 < unat ?r" by simp
    with inv have "energyArray st ! 0 < energyArray st ! unat ?r" by blast
    moreover from inv have "energyArray st ! 0 = c" "energyArray st ! unat ?r = c"
      by (simp_all add: assms)
    ultimately show False by simp
  qed
  then have "?r = 0" by (simp add: unat_eq_0)
  then show ?thesis by (simp add: get_max_energy_pos_def)
qed

lemma get_max_energy_pos_peak:
  assumes "m < ENERGY_SAMPLES"
    and "\<And>k. k < ENERGY_SAMPLES \<Longrightarrow> energyArray st ! k = (if k = m then hi else lo)"
    and "lo < hi"
  shows "unat (get_max_energy_pos st) = (ADC_SAMPLE_PERIOD div 2) * m"
proof -
  let ?r = "get_max_energy_pos_loop (energyArray st) 0 0"
  have inv: "unat ?r < ENERGY_SAMPLES \<and>
         (\<forall>j<ENERGY_SAMPLES. energyArray st ! j \<le> energyArray st ! unat ?r) \<and>
         (\<forall>j<unat ?r. energyArray st ! j < energyArray st ! unat ?r)"
    by (rule get_max_energy_pos_loop_inv) simp_all
  then have "energyArray st ! m \<le> energyArray st ! unat ?r" using assms(1) by blast
  with inv assms have "unat ?r = m" by (auto split: if_splits)
  with assms(1) show ?thesis
    by (simp add: get_max_energy_pos_def unat_word_ariths)
qed


subsection \<open>Running the scenarios\<close>

lemma motion_move_frame:
  "motion_queue (motion_move rx st) = motion_queue st"
  "adc_calls (motion_move rx st) = adc_calls st"
  "energyArray (motion_move rx st) = energyArray st"
  "busy_bit (motion_move rx st) = 0"
proof -
  define s4 where "s4 = (setDirection (0 < sint (ucast (PARAM1_UNPACK rx) :: u8))
      (pr_debug ''MOVING'' (st\<lparr>busy_bit := 1, steps_todo2 := ucast (PARAM1_UNPACK rx)\<rparr>)))
      \<lparr>steps_todo2 := word_of_int \<bar>sint (ucast (PARAM1_UNPACK rx) :: u8)\<bar>\<rparr>"
  have mm: "motion_move rx st = (move_loop s4)\<lparr>busy_bit := 0\<rparr>"
    by (simp add: motion_move_def Let_def s4_def)
  have "motion_queue (move_loop s4) = motion_queue s4 \<and> adc_calls (move_loop s4) = adc_calls s4"
    by (rule move_loop_invariant
          [where P = "\<lambda>s. motion_queue s = motion_queue s4 \<and> adc_calls s = adc_calls s4"])
       simp_all
  then show "motion_queue (motion_move rx st) = motion_queue st"
    "adc_calls (motion_move rx st) = adc_calls st"
    by (simp_all add: mm) (simp_all add: s4_def)
  show "energyArray (motion_move rx st) = energyArray st"
    by (simp add: mm energy_length_loops) (simp add: s4_def)
  show "busy_bit (motion_move rx st) = 0" by (simp add: mm)
qed

lemma motion_scan_frame:
  "motion_queue (motion_scan e st) = motion_queue st"
  "busy_bit (motion_scan e st) = 0"
proof -
  have a: "\<And>f s. motion_queue (scan_loop e f s) = motion_queue s"
    by (rule scan_loop_invariant [where P = "\<lambda>t. motion_queue t = motion_queue s" for s]) simp_all
  have b: "\<And>s. motion_queue (seek_loop s) = motion_queue s"
    by (rule seek_loop_invariant [where P = "\<lambda>t. motion_queue t = motion_queue s" for s]) simp_all
  show "motion_queue (motion_scan e st) = motion_queue st"
    by (simp add: motion_scan_def Let_def a b)
  show "busy_bit (motion_scan e st) = 0"
    by (simp add: motion_scan_def Let_def)
qed

lemma dequeue_only: "motion_queue st = [] \<Longrightarrow> st\<lparr>motion_queue := []\<rparr> = st"
  by (cases st) simp

lemma handle_move_pkt:
  assumes "motion_queue st = []"
  shows "pulse_view (handle_packet e st (move_pkt b)) =
           pulse_view (motion_move (0x06000000 OR push_bit 16 (ucast b)) (pr_debug ''recevied'' st))"
    and "motion_queue (handle_packet e st (move_pkt b)) = []"
    and "adc_calls (handle_packet e st (move_pkt b)) = adc_calls st"
    and "energyArray (handle_packet e st (move_pkt b)) = energyArray st"
proof -
  define rx :: u32 where "rx = 0x06000000 OR push_bit 16 (ucast b)"
  define s where "s = pr_debug ''recevied'' st"
  have d: "fst (snd (wifi_pkt_decoding e True st (move_pkt b))) = st\<lparr>motion_queue := [rx]\<rparr>"
    using assms unfolding rx_def by (subst decode_move_pkt) simp_all
  have sw: "motion_switch e rx s = motion_move rx s"
    unfolding rx_def by (simp add: motion_switch_def move_word_unpack)
  have h: "handle_packet e st (move_pkt b) =
      (motion_move rx s)\<lparr>command :=
         (if unat (command_idx (motion_move rx s)) < length (commandSequence (motion_move rx s))
          then Some (commandSequence (motion_move rx s) ! unat (command_idx (motion_move rx s)))
          else None),
        command_idx := command_idx (motion_move rx s) + 1\<rparr>"
    using assms
    by (simp add: handle_packet_def d motion_task_iter_def Let_def dequeue_only sw [unfolded s_def]
          motion_move_frame s_def)
  show "pulse_view (handle_packet e st (move_pkt b)) =
           pulse_view (motion_move (0x06000000 OR push_bit 16 (ucast b)) (pr_debug ''recevied'' st))"
    by (simp add: h pulse_view_def step_high_def dir_cw_def rx_def s_def)
  show "motion_queue (handle_packet e st (move_pkt b)) = []"
    using assms by (simp add: h motion_move_frame s_def)
  show "adc_calls (handle_packet e st (move_pkt b)) = adc_calls st"
    by (simp add: h motion_move_frame s_def)
  show "energyArray (handle_packet e st (move_pkt b)) = energyArray st"
    by (simp add: h motion_move_frame s_def)
qed

lemma handle_scan_pkt:
  assumes "motion_queue st = []"
  shows "pulse_view (handle_packet e st scan_pkt) = pulse_view (motion_scan e (pr_debug ''recevied'' st))"
    and "energyArray (handle_packet e st scan_pkt) = energyArray (motion_scan e (pr_debug ''recevied'' st))"
proof -
  define s where "s = pr_debug ''recevied'' st"
  have d: "fst (snd (wifi_pkt_decoding e True st scan_pkt)) = st\<lparr>motion_queue := [0x05000000]\<rparr>"
    using assms by (simp add: wifi_pkt_decoding_def xQueueSend_def scan_pkt_def Let_def)
  have sw: "motion_switch e 0x05000000 s = motion_scan e s"
    by (simp add: motion_switch_def CMD_UNPACK_def)
  have h: "handle_packet e st scan_pkt =
      (motion_scan e s)\<lparr>command :=
         (if unat (command_idx (motion_scan e s)) < length (commandSequence (motion_scan e s))
          then Some (commandSequence (motion_scan e s) ! unat (command_idx (motion_scan e s)))
          else None),
        command_idx := command_idx (motion_scan e s) + 1\<rparr>"
    using assms
    by (simp add: handle_packet_def d motion_task_iter_def Let_def dequeue_only sw [unfolded s_def]
          motion_scan_frame s_def)
  show "pulse_view (handle_packet e st scan_pkt) = pulse_view (motion_scan e (pr_debug ''recevied'' st))"
    by (simp add: h pulse_view_def step_high_def dir_cw_def s_def)
  show "energyArray (handle_packet e st scan_pkt) = energyArray (motion_scan e (pr_debug ''recevied'' st))"
    by (simp add: h s_def)
qed

lemma move_from_boot:
  "pulse_view (handle_packet slave7 power_wifi_init (move_pkt 10)) = (False, True, 5)"
  "pulse_view (handle_packet slave7 power_wifi_init (move_pkt 100)) = (False, True, 50)"
proof -
  have q: "motion_queue power_wifi_init = []" by (simp add: power_wifi_init_def)
  have pv: "step_high power_wifi_init = False" "unat (current_pos power_wifi_init) = 0"
    by (simp_all add: power_wifi_init_def step_high_def)
  show "pulse_view (handle_packet slave7 power_wifi_init (move_pkt 10)) = (False, True, 5)"
    by (simp add: handle_move_pkt [OF q] motion_move_effect PARAM1_UNPACK_def pv
          toggle_view_funpow edges_def)
  show "pulse_view (handle_packet slave7 power_wifi_init (move_pkt 100)) = (False, True, 50)"
    by (simp add: handle_move_pkt [OF q] motion_move_effect PARAM1_UNPACK_def pv
          toggle_view_funpow edges_def)
qed

lemma scan_reading_slave7: "scan_reading slave7 c = 1000"
  by (simp add: scan_reading_average slave7_def)

lemma scan_reading_slave7_peak:
  "scan_reading slave7_peak (ADC_AVERAGE_DEPTH * k) = (if k = 1 then 3000 else 1000)"
proof -
  have "unat (adc0 slave7_peak (ADC_AVERAGE_DEPTH * k + j)) = (if k = 1 then 3000 else 1000)"
    if "j < ADC_AVERAGE_DEPTH" for j
  proof -
    have "(2000 \<le> 2000 * k + j \<and> 2000 * k + j < 4000) = (k = 1)"
      using that by (cases k) auto
    then show ?thesis by (simp add: slave7_peak_def)
  qed
  then have "(\<Sum>j<ADC_AVERAGE_DEPTH. unat (adc0 slave7_peak (ADC_AVERAGE_DEPTH * k + j))) =
      (\<Sum>j<ADC_AVERAGE_DEPTH. if k = 1 then 3000 else 1000)"
    by (intro sum.cong) simp_all
  then show ?thesis by (simp add: scan_reading_average)
qed

text \<open>
  Claim C4 fails on the code.  First run: the slave at position 50 (after a MOVE
  of 100 pulses) scans with a constant analog input; the greatest sample is
  sample 0, the best-energy offset is 0, the delta is -50, and the motor ends
  the scan at 50: for a negative delta \<open>while (steps_todo > 0)\<close> issues no pulse.
  Second run: the slave at position 0 scans with the analog input highest during
  sample 1; the best-energy offset is 20, the delta is +20, the seek calls
  \<open>toggleStep\<close> 20 times, which is 10 steps, and the motor ends the scan at 10.
\<close>

theorem scan_misses_best_position:
  "unat (current_pos (handle_packet slave7 power_wifi_init (move_pkt 100))) = 50 \<and>
   unat (get_max_energy_pos
     (handle_packet slave7 (handle_packet slave7 power_wifi_init (move_pkt 100)) scan_pkt)) = 0 \<and>
   unat (current_pos
     (handle_packet slave7 (handle_packet slave7 power_wifi_init (move_pkt 100)) scan_pkt)) = 50 \<and>
   unat (get_max_energy_pos (handle_packet slave7_peak power_wifi_init scan_pkt)) = 20 \<and>
   unat (current_pos (handle_packet slave7_peak power_wifi_init scan_pkt)) = 10"
proof -
  define st50 where "st50 = handle_packet slave7 power_wifi_init (move_pkt 100)"
  have q0: "motion_queue power_wifi_init = []" by (simp add: power_wifi_init_def)
  have pv50: "pulse_view st50 = (False, True, 50)" unfolding st50_def by (rule move_from_boot)
  then have p50: "unat (current_pos st50) = 50" and h50: "step_high st50 = False"
    by (simp_all add: pulse_view_def)
  have q50: "motion_queue st50 = []" unfolding st50_def by (rule handle_move_pkt [OF q0])
  have "energyArray st50 = energyArray power_wifi_init"
    unfolding st50_def by (rule handle_move_pkt [OF q0])
  then have l50: "length (energyArray st50) = 20"
    by (simp add: power_wifi_init_def)
  define s50 where "s50 = pr_debug ''recevied'' st50"
  have p50': "unat (current_pos s50) = 50" and l50': "length (energyArray s50) = 20"
    using p50 l50 by (simp_all add: s50_def)
  have "energyArray (motion_scan slave7 s50) ! k = 1000" if "k < ENERGY_SAMPLES" for k
    using that by (simp add: motion_scan_samples [OF l50'] scan_reading_slave7)
  then have bestA: "get_max_energy_pos (motion_scan slave7 s50) = 0"
    by (rule get_max_energy_pos_flat)
  have posA: "unat (current_pos (motion_scan slave7 s50)) = 50"
    using p50' by (subst scan_final_position) (simp_all add: bestA)
  have A: "unat (get_max_energy_pos (handle_packet slave7 st50 scan_pkt)) = 0"
    "unat (current_pos (handle_packet slave7 st50 scan_pkt)) = 50"
    using bestA posA handle_scan_pkt [OF q50, of slave7]
    by (simp_all add: get_max_energy_pos_def current_pos_pulse_view s50_def)
  define s0 where "s0 = pr_debug ''recevied'' power_wifi_init"
  have l0: "length (energyArray s0) = 20" "adc_calls s0 = 0"
    "unat (current_pos s0) = 0" "step_high s0 = False"
    by (simp_all add: s0_def) (simp_all add: power_wifi_init_def step_high_def)
  have "energyArray (motion_scan slave7_peak s0) ! k = (if k = 1 then 3000 else 1000)"
    if "k < ENERGY_SAMPLES" for k
    using that by (simp add: motion_scan_samples [OF l0(1)] l0(2) scan_reading_slave7_peak)
  then have bestB: "unat (get_max_energy_pos (motion_scan slave7_peak s0)) =
      (ADC_SAMPLE_PERIOD div 2) * 1"
    by (intro get_max_energy_pos_peak [where hi = 3000 and lo = 1000]) simp_all
  have posB: "unat (current_pos (motion_scan slave7_peak s0)) = 10"
    using l0 bestB by (subst scan_final_position) (simp_all add: edges_def)
  have B: "unat (get_max_energy_pos (handle_packet slave7_peak power_wifi_init scan_pkt)) = 20"
    "unat (current_pos (handle_packet slave7_peak power_wifi_init scan_pkt)) = 10"
    using bestB posB handle_scan_pkt [OF q0, of slave7_peak]
    by (simp_all add: get_max_energy_pos_def current_pos_pulse_view s0_def)
  from p50 A B show ?thesis unfolding st50_def by simp
qed


subsection \<open>The busy flag\<close>

lemma extends_with_steps:
  "extends_with b st s \<Longrightarrow> extends_with b st (scan_step e f s)"
  "extends_with b st s \<Longrightarrow> extends_with b st (seek_step s)"
  "extends_with b st s \<Longrightarrow> extends_with b st (move_step s)"
proof -
  assume a: "extends_with b st s"
  then have b: "busy_bit s = b" by (simp add: extends_with_def)
  have "extends_with b st (vTaskDelay 1000 s)"
    using a by (rule extends_with_snoc) (simp_all add: b)
  then have sample: "extends_with b st (scan_sample e s)"
    by (rule extends_with_snoc [where t = "Debug ''ADC sample''"]) (simp_all add: b)
  define s1 where "s1 = (if f mod int ADC_SAMPLE_PERIOD = 0 then scan_sample e s else s)"
  have s1: "extends_with b st s1" using a sample by (simp add: s1_def)
  then have b1: "busy_bit s1 = b" by (simp add: extends_with_def)
  define s3 where "s3 = (toggleStep s1)\<lparr>steps_todo := steps_todo (toggleStep s1) - 1\<rparr>"
  have s3: "extends_with b st s3"
    using s1 by (rule extends_with_same) (simp_all add: s3_def b1)
  have "extends_with b st (vTaskDelay (unat (current_speed s3)) s3)"
    using s3 by (rule extends_with_snoc) (simp_all add: s3_def b1)
  then show "extends_with b st (scan_step e f s)"
    by (simp add: scan_step_def Let_def s3_def s1_def)
next
  assume a: "extends_with b st s"
  then have b: "busy_bit s = b" by (simp add: extends_with_def)
  show "extends_with b st (seek_step s)"
    using a by (rule extends_with_snoc) (simp_all add: b)
next
  assume a: "extends_with b st s"
  then have b: "busy_bit s = b" by (simp add: extends_with_def)
  show "extends_with b st (move_step s)"
    using a by (rule extends_with_snoc) (simp_all add: b)
qed

lemma extends_with_loops:
  "extends_with b st s \<Longrightarrow> extends_with b st (scan_loop e f s)"
  "extends_with b st s \<Longrightarrow> extends_with b st (seek_loop s)"
  "extends_with b st s \<Longrightarrow> extends_with b st (move_loop s)"
proof -
  show "extends_with b st s \<Longrightarrow> extends_with b st (scan_loop e f s)"
    by (rule scan_loop_invariant [where P = "extends_with b st"]) (simp_all add: extends_with_steps)
  show "extends_with b st s \<Longrightarrow> extends_with b st (seek_loop s)"
    by (rule seek_loop_invariant [where P = "extends_with b st"]) (simp_all add: extends_with_steps)
  show "extends_with b st s \<Longrightarrow> extends_with b st (move_loop s)"
    by (rule move_loop_invariant [where P = "extends_with b st"]) (simp_all add: extends_with_steps)
qed

lemma extends_with_trace:
  assumes "extends_with b st s"
  shows "trace s = trace st @ drop (length (trace st)) (trace s)"
  using assms append_take_drop_id [of "length (trace st)" "trace s"]
  by (simp add: extends_with_def)

text \<open>
  The number of suspensions.  One pass of the sweep suspends the task once, and
  once more when it takes a sample; the sweep makes \<open>ADC_AVERAGE_DEPTH\<close> calls of
  \<open>adc0_get_reading\<close> per sample, which counts the samples.
\<close>

lemma suspensions_simps [simp]:
  "suspensions (vTaskDelay t st) = Suc (suspensions st)"
  "suspensions (pr_debug m st) = suspensions st"
  "suspensions (toggleStep st) = suspensions st"
  "suspensions (setDirection d st) = suspensions st"
  "suspensions (scan_sample e st) = Suc (suspensions st)"
  "suspensions (seek_step st) = Suc (suspensions st)"
  "suspensions (move_step st) = Suc (suspensions st)"
  "suspensions (st\<lparr>steps_todo := w\<rparr>) = suspensions st"
  by (simp_all add: suspensions_def)

lemma suspensions_scan_step:
  "suspensions (scan_step e f st) = suspensions st + (if f mod 40 = 0 then 2 else 1)"
  by (simp add: scan_step_def Let_def)

lemma suspensions_scan_loop:
  assumes "sint (steps_todo st) = int n"
  shows "ADC_AVERAGE_DEPTH * suspensions (scan_loop e f st) + adc_calls st =
         ADC_AVERAGE_DEPTH * (suspensions st + n) + adc_calls (scan_loop e f st)"
  using assms
proof (induction n arbitrary: f st)
  case 0
  then have "scan_loop e f st = st" by (subst scan_loop.simps) simp
  then show ?case by simp
next
  case (Suc n)
  define s1 where "s1 = scan_step e f st"
  define r where "r = scan_loop e (f + 1) s1"
  from Suc.prems have pos: "0 < sint (steps_todo st)" by simp
  then have unfold: "scan_loop e f st = r"
    unfolding r_def s1_def by (subst scan_loop.simps) simp
  from pos Suc.prems have "sint (steps_todo s1) = int n"
    by (simp add: s1_def sint_dec16)
  then have IH: "ADC_AVERAGE_DEPTH * suspensions r + adc_calls s1 =
      ADC_AVERAGE_DEPTH * (suspensions s1 + n) + adc_calls r"
    unfolding r_def by (rule Suc.IH)
  have "ADC_AVERAGE_DEPTH * suspensions s1 + adc_calls st =
      ADC_AVERAGE_DEPTH * (suspensions st + 1) + adc_calls s1"
    by (simp add: s1_def suspensions_scan_step scan_step_energy)
  with IH show ?case unfolding unfold by simp
qed

lemma suspensions_seek_loop: "suspensions st \<le> suspensions (seek_loop st)"
  by (rule seek_loop_invariant [where P = "\<lambda>s. suspensions st \<le> suspensions s"]) simp_all

text \<open>
  What a scan adds to the trace: the print ``SCANNING'' first, made with
  \<open>busy_bit\<close> = 1, then entries that all see \<open>busy_bit\<close> = 1, among them at least
  \<open>STEPS_FULL_REV + ENERGY_SAMPLES + 1\<close> suspensions.
\<close>

lemma motion_scan_trace:
  assumes "length (energyArray st) = 20"
  shows "\<exists>seen. trace (motion_scan e st) = trace st @ (Debug ''SCANNING'', 1) # seen \<and>
           list_all (\<lambda>d. snd d = 1) seen \<and>
           STEPS_FULL_REV + ENERGY_SAMPLES + 1 \<le> length (filter is_delay seen)"
proof -
  define s1 where "s1 = pr_debug ''SCANNING'' (st\<lparr>busy_bit := 1\<rparr>)"
  define s5 where "s5 = setDirection CW (enableDrive DRIVE_ON
      (s1\<lparr>steps_todo := word_of_nat STEPS_FULL_REV, energyArray_idx := 0\<rparr>))"
  define s6 where "s6 = scan_loop e 0 s5"
  define s6d where "s6d = pr_debug ''max energy pos'' s6"
  define s7d where "s7d = pr_debug ''currentPos''
      (s6d\<lparr>steps_todo := word_of_int (uint (get_max_energy_pos s6d) - uint (current_pos s6d))\<rparr>)"
  define s8 where "s8 = vTaskDelay 1000 s7d"
  define s9 where "s9 = setDirection (if 0 < sint (steps_todo s8) then CW else CCW) s8"
  define s10 where "s10 = seek_loop s9"
  define s10d where "s10d = pr_debug ''Scan ended at position'' s10"
  have ms: "motion_scan e st = s10d\<lparr>busy_bit := 0\<rparr>"
    by (simp add: motion_scan_def Let_def s10d_def s10_def s9_def s8_def s7d_def s6d_def s6_def
          s5_def s1_def)
  have t1: "trace s1 = trace st @ [(Debug ''SCANNING'', 1)]" and b1: "busy_bit s1 = 1"
    by (simp_all add: s1_def)
  have "extends_with 1 s1 s1" using b1 by (rule extends_with_refl)
  then have e5: "extends_with 1 s1 s5"
    by (rule extends_with_same) (simp_all add: s5_def b1 enableDrive_def)
  then have e6: "extends_with 1 s1 s6" unfolding s6_def by (rule extends_with_loops)
  then have b6: "busy_bit s6 = 1" by (simp add: extends_with_def)
  have e6d: "extends_with 1 s1 s6d"
    using e6 by (rule extends_with_snoc [where t = "Debug ''max energy pos''"]) (simp_all add: s6d_def b6)
  have e7d: "extends_with 1 s1 s7d"
    using e6d by (rule extends_with_snoc [where t = "Debug ''currentPos''"]) (simp_all add: s7d_def s6d_def b6)
  then have b7: "busy_bit s7d = 1" by (simp add: extends_with_def)
  have e8: "extends_with 1 s1 s8"
    using e7d by (rule extends_with_snoc [where t = "Delay 1000"]) (simp_all add: s8_def b7)
  then have b8: "busy_bit s8 = 1" by (simp add: extends_with_def)
  have e9: "extends_with 1 s1 s9"
    using e8 by (rule extends_with_same) (simp_all add: s9_def b8)
  then have e10: "extends_with 1 s1 s10" unfolding s10_def by (rule extends_with_loops)
  then have b10: "busy_bit s10 = 1" by (simp add: extends_with_def)
  have e10d: "extends_with 1 s1 s10d"
    using e10 by (rule extends_with_snoc [where t = "Debug ''Scan ended at position''"])
      (simp_all add: s10d_def b10)
  define seen where "seen = drop (length (trace s1)) (trace s10d)"
  have tr: "trace s10d = trace s1 @ seen"
    unfolding seen_def using e10d by (rule extends_with_trace)
  have al: "list_all (\<lambda>d. snd d = 1) seen"
    using e10d by (simp add: seen_def extends_with_def)
  have c5: "sint (steps_todo s5) = int STEPS_FULL_REV" by (simp add: s5_def)
  have a5: "adc_calls s5 = adc_calls st" "suspensions s5 = suspensions st"
    by (simp_all add: s5_def s1_def enableDrive_def suspensions_def)
  have "adc_calls (motion_scan e st) = adc_calls st + ADC_AVERAGE_DEPTH * ENERGY_SAMPLES"
    using assms by (rule motion_scan_samples)
  moreover have "adc_calls (seek_loop s9) = adc_calls s9"
    by (rule seek_loop_invariant [where P = "\<lambda>s. adc_calls s = adc_calls s9"]) simp_all
  ultimately have a6: "adc_calls s6 = adc_calls st + ADC_AVERAGE_DEPTH * ENERGY_SAMPLES"
    by (simp add: ms s10d_def s10_def s9_def s8_def s7d_def s6d_def)
  from suspensions_scan_loop [OF c5, of e 0]
  have "ADC_AVERAGE_DEPTH * suspensions s6 + adc_calls s5 =
      ADC_AVERAGE_DEPTH * (suspensions s5 + STEPS_FULL_REV) + adc_calls s6"
    by (simp add: s6_def)
  with a5 a6 have n6: "suspensions s6 = suspensions st + STEPS_FULL_REV + ENERGY_SAMPLES"
    by simp
  have "suspensions s9 = Suc (suspensions s6)"
    by (simp add: s9_def s8_def s7d_def s6d_def suspensions_def)
  moreover have "suspensions s9 \<le> suspensions s10"
    unfolding s10_def by (rule suspensions_seek_loop)
  ultimately have "suspensions st + STEPS_FULL_REV + ENERGY_SAMPLES + 1 \<le> suspensions s10d"
    using n6 by (simp add: s10d_def)
  moreover have "suspensions s10d = suspensions st + length (filter is_delay seen)"
    by (simp add: suspensions_def tr t1)
  ultimately have cnt: "STEPS_FULL_REV + ENERGY_SAMPLES + 1 \<le> length (filter is_delay seen)"
    by simp
  have "trace (motion_scan e st) = trace st @ (Debug ''SCANNING'', 1) # seen"
    by (simp add: ms tr t1)
  with al cnt show ?thesis by blast
qed

lemma decode_scan_pkt:
  "length (motion_queue st) < MOTION_QUEUE_LEN \<Longrightarrow>
   fst (snd (wifi_pkt_decoding e tx_ok st scan_pkt)) =
     st\<lparr>motion_queue := motion_queue st @ [0x05000000]\<rparr>"
  by (simp add: wifi_pkt_decoding_def xQueueSend_def scan_pkt_def Let_def)

text \<open>
  Claim C8, as amended.  Take any state the firmware reaches between two
  activities, with a SCAN or MOVE word at the head of the motion queue, and let
  the motion task make its pass (dequeue the word and execute it to completion).
  Before the dequeue \<open>busy_bit\<close> is 0, and it is still 0 when the task prints the
  word it has dequeued.  The first statement of the SCAN or MOVE case sets it:
  the next print (``SCANNING'' or ``MOVING'') and everything the task does from
  there to the end of the command, every later print and every suspension, sees
  \<open>busy_bit\<close> = 1.  A scan suspends the task at least
  \<open>STEPS_FULL_REV + ENERGY_SAMPLES + 1\<close> times (once per step of the sweep, once
  before each sample, once before seeking); a move suspends it once per step, for
  \<open>current_speed\<close> ticks each, and does nothing else.  After completion \<open>busy_bit\<close>
  is 0.  The witness runs MOVE 10 and SCAN on a slave at start-up.
\<close>

theorem busy_flag_set_by_case:
  assumes "reachable e st"
    and "motion_queue st = rx # rest"
    and "CMD_UNPACK rx = ucast WIFI_CMD_SCAN \<or> CMD_UNPACK rx = ucast WIFI_CMD_MOVE"
  shows "busy_bit st = 0 \<and>
         (\<exists>seen. trace (motion_task_iter e st) =
                   trace st @ (Debug ''recevied'', 0) #
                     (Debug (if CMD_UNPACK rx = ucast WIFI_CMD_SCAN then ''SCANNING'' else ''MOVING''), 1) #
                     seen \<and>
                 list_all (\<lambda>d. snd d = 1) seen \<and>
                 (if CMD_UNPACK rx = ucast WIFI_CMD_SCAN
                  then STEPS_FULL_REV + ENERGY_SAMPLES + 1 \<le> length (filter is_delay seen)
                  else seen = replicate (nat (sint (word_of_int \<bar>sint (ucast (PARAM1_UNPACK rx) :: u8)\<bar> :: u8)))
                                (Delay (unat (current_speed st)), 1))) \<and>
         busy_bit (motion_task_iter e st) = 0"
proof -
  define s where "s = pr_debug ''recevied'' (st\<lparr>motion_queue := rest\<rparr>)"
  from assms(1) have b0: "busy_bit st = 0" and len: "length (energyArray st) = 20"
    by (simp_all add: reachable_invariant)
  have ts: "trace s = trace st @ [(Debug ''recevied'', 0)]" and bs: "busy_bit s = 0"
    and ls: "length (energyArray s) = 20" and cs: "current_speed s = current_speed st"
    using b0 len by (simp_all add: s_def)
  have bsw: "busy_bit (motion_switch e rx s) = 0" using bs by (rule busy_bit_motion_switch)
  have it: "trace (motion_task_iter e st) = trace (motion_switch e rx s)"
    "busy_bit (motion_task_iter e st) = 0"
    using assms(2) bsw by (simp_all add: motion_task_iter_def Let_def s_def)
  show ?thesis
  proof (cases "CMD_UNPACK rx = ucast WIFI_CMD_SCAN")
    case True
    then have "motion_switch e rx s = motion_scan e s" by (simp add: motion_switch_def)
    with motion_scan_trace [OF ls, of e] it ts b0 True show ?thesis by auto
  next
    case False
    with assms(3) have "motion_switch e rx s = motion_move rx s" by (simp add: motion_switch_def)
    with motion_move_effect(2) [of rx s] it ts cs b0 False show ?thesis
      by (simp add: list_all_length)
  qed
qed

theorem busy_flag_set_by_case_witness:
  "trace (handle_packet slave7 power_wifi_init (move_pkt 10)) =
     (Debug ''recevied'', 0) # (Debug ''MOVING'', 1) # replicate 10 (Delay 10, 1) \<and>
   busy_bit (handle_packet slave7 power_wifi_init (move_pkt 10)) = 0 \<and>
   take 2 (trace (handle_packet slave7 power_wifi_init scan_pkt)) =
     [(Debug ''recevied'', 0), (Debug ''SCANNING'', 1)] \<and>
   list_all (\<lambda>d. snd d = 1) (tl (trace (handle_packet slave7 power_wifi_init scan_pkt))) \<and>
   STEPS_FULL_REV + ENERGY_SAMPLES + 1 \<le> suspensions (handle_packet slave7 power_wifi_init scan_pkt) \<and>
   busy_bit (handle_packet slave7 power_wifi_init scan_pkt) = 0"
proof -
  define m where "m = fst (snd (wifi_pkt_decoding slave7 True power_wifi_init (move_pkt 10)))"
  define c where "c = fst (snd (wifi_pkt_decoding slave7 True power_wifi_init scan_pkt))"
  define rx :: u32 where "rx = 0x060A0000"
  define rc :: u32 where "rc = 0x05000000"
  have rm: "reachable slave7 m" and rc: "reachable slave7 c"
    unfolding m_def c_def by (intro reachable.intros)+
  have m: "m = power_wifi_init\<lparr>motion_queue := [rx]\<rparr>"
    unfolding m_def rx_def by (subst decode_move_pkt) (simp_all add: power_wifi_init_def)
  have c: "c = power_wifi_init\<lparr>motion_queue := [rc]\<rparr>"
    unfolding c_def rc_def by (subst decode_scan_pkt) (simp_all add: power_wifi_init_def)
  have qm: "motion_queue m = rx # []" and qc: "motion_queue c = rc # []"
    by (simp_all add: m c)
  have tm: "trace m = []" "current_speed m = 10" and tc: "trace c = []"
    by (simp_all add: m c power_wifi_init_def)
  have ux: "CMD_UNPACK rx = 6" "nat (sint (word_of_int \<bar>sint (ucast (PARAM1_UNPACK rx) :: u8)\<bar> :: u8)) = 10"
    unfolding rx_def by (simp_all add: CMD_UNPACK_def PARAM1_UNPACK_def)
  have uc: "CMD_UNPACK rc = 5" unfolding rc_def by (simp add: CMD_UNPACK_def)
  have "CMD_UNPACK rx = ucast WIFI_CMD_SCAN \<or> CMD_UNPACK rx = ucast WIFI_CMD_MOVE"
    by (simp add: ux)
  from busy_flag_set_by_case [OF rm qm this]
  have M: "trace (motion_task_iter slave7 m) =
      (Debug ''recevied'', 0) # (Debug ''MOVING'', 1) # replicate 10 (Delay 10, 1) \<and>
      busy_bit (motion_task_iter slave7 m) = 0"
    by (simp add: ux tm)
  have "CMD_UNPACK rc = ucast WIFI_CMD_SCAN \<or> CMD_UNPACK rc = ucast WIFI_CMD_MOVE"
    by (simp add: uc)
  from busy_flag_set_by_case [OF rc qc this]
  obtain seen where S: "trace (motion_task_iter slave7 c) =
      (Debug ''recevied'', 0) # (Debug ''SCANNING'', 1) # seen"
    "list_all (\<lambda>d. snd d = 1) seen"
    "STEPS_FULL_REV + ENERGY_SAMPLES + 1 \<le> length (filter is_delay seen)"
    "busy_bit (motion_task_iter slave7 c) = 0"
    by (auto simp add: uc tc)
  from S have "take 2 (trace (motion_task_iter slave7 c)) =
      [(Debug ''recevied'', 0), (Debug ''SCANNING'', 1)] \<and>
    list_all (\<lambda>d. snd d = 1) (tl (trace (motion_task_iter slave7 c))) \<and>
    STEPS_FULL_REV + ENERGY_SAMPLES + 1 \<le> suspensions (motion_task_iter slave7 c) \<and>
    busy_bit (motion_task_iter slave7 c) = 0"
    by (simp add: suspensions_def)
  with M show ?thesis by (simp add: handle_packet_def m_def c_def)
qed

text \<open>
  Claim C8 as stated fails: a slave at start-up receives MOVE 10; the motion task
  dequeues the word and prints it while \<open>busy_bit\<close> is still 0, so not everything
  the task does between the dequeue and the completion sees the flag set.
\<close>

theorem busy_flag_clear_after_dequeue:
  "motion_queue (fst (snd (wifi_pkt_decoding slave7 True power_wifi_init (move_pkt 10)))) = [0x060A0000] \<and>
   CMD_UNPACK 0x060A0000 = ucast WIFI_CMD_MOVE \<and>
   trace (fst (snd (wifi_pkt_decoding slave7 True power_wifi_init (move_pkt 10)))) = [] \<and>
   hd (trace (motion_task_iter slave7
        (fst (snd (wifi_pkt_decoding slave7 True power_wifi_init (move_pkt 10)))))) =
     (Debug ''recevied'', 0) \<and>
   \<not> list_all (\<lambda>d. snd d = 1) (trace (motion_task_iter slave7
        (fst (snd (wifi_pkt_decoding slave7 True power_wifi_init (move_pkt 10))))))"
proof -
  define m where "m = fst (snd (wifi_pkt_decoding slave7 True power_wifi_init (move_pkt 10)))"
  define rx :: u32 where "rx = 0x060A0000"
  have m: "m = power_wifi_init\<lparr>motion_queue := [rx]\<rparr>"
    unfolding m_def rx_def by (subst decode_move_pkt) (simp_all add: power_wifi_init_def)
  have u: "CMD_UNPACK rx = ucast WIFI_CMD_MOVE" unfolding rx_def by (simp add: CMD_UNPACK_def)
  have q: "motion_queue m = [rx]" and t: "trace m = []"
    by (simp_all add: m power_wifi_init_def)
  define s where "s = pr_debug ''recevied'' (m\<lparr>motion_queue := []\<rparr>)"
  have ts: "trace s = [(Debug ''recevied'', 0)]"
    by (simp add: s_def m power_wifi_init_def)
  have sw: "motion_switch slave7 rx s = motion_move rx s"
    by (simp add: motion_switch_def u)
  have "trace (motion_task_iter slave7 m) = trace (motion_move rx s)"
    using q sw by (simp add: motion_task_iter_def Let_def s_def [symmetric] motion_move_frame)
  then obtain seen where "trace (motion_task_iter slave7 m) = (Debug ''recevied'', 0) # seen"
    by (simp add: motion_move_effect ts)
  then have "hd (trace (motion_task_iter slave7 m)) = (Debug ''recevied'', 0)"
    "\<not> list_all (\<lambda>d. snd d = 1) (trace (motion_task_iter slave7 m))"
    by simp_all
  then show ?thesis using q t u unfolding m_def rx_def by simp
qed

subsection \<open>The status report\<close>

lemma status_report_contents:
  assumes "node_addr e \<noteq> WIFI_MASTER_ADDR" and "data pkt ! 0 = WIFI_CMD_GET_STATUS"
  shows "outbound (snd (snd (wifi_pkt_decoding e tx_ok st pkt))) =
           [(WIFI_MASTER_ADDR,
             [WIFI_CMD_GIVE_STATUS,
              busy st,
              ucast (drop_bit 8 (adc_sum16 (adc0 e) (adc_calls st) ADC_AVERAGE_DEPTH 0 div 2000) AND 0xf),
              ucast (adc_sum16 (adc0 e) (adc_calls st) ADC_AVERAGE_DEPTH 0 div 2000 AND 0xff),
              position st])]"
  using assms
  by (simp add: wifi_pkt_decoding_def wifi_slave_heartbeat_def Let_def outbound_def
        List.map_filter_simps)

lemma status_report_reachable:
  assumes "reachable e st"
    and "node_addr e \<noteq> WIFI_MASTER_ADDR" and "data pkt ! 0 = WIFI_CMD_GET_STATUS"
  shows "\<exists>hi lo. outbound (snd (snd (wifi_pkt_decoding e tx_ok st pkt))) =
           [(WIFI_MASTER_ADDR, [WIFI_CMD_GIVE_STATUS, 0, hi, lo, 0])]"
  using reachable_invariant [OF assms(1)]
  by (simp add: status_report_contents [OF assms(2,3)])

lemma adc_sum16_slave7: "adc_sum16 (adc0 slave7) c ADC_AVERAGE_DEPTH 0 = 33920"
  by (simp add: adc_sum16_sum slave7_def)

text \<open>
  Claim C1 fails on the code.  The slave at address 7 executes a MOVE of 10
  pulses and is idle at position 5; its analog input reads 1000 at every call.
  On GET_STATUS it sends error byte 0, ADC bytes 0 and 16, position byte 0.
  The claim asks for ADC bytes 3 and 232 (1000 is 0x3E8) and position byte 5.
\<close>

theorem status_report_ignores_motor:
  "unat (current_pos (handle_packet slave7 power_wifi_init (move_pkt 10))) = 5 \<and>
   outbound (snd (snd (wifi_pkt_decoding slave7 True
       (handle_packet slave7 power_wifi_init (move_pkt 10)) get_status_pkt))) =
     [(WIFI_MASTER_ADDR, [WIFI_CMD_GIVE_STATUS, 0, 0, 16, 0])]"
proof -
  define st where "st = handle_packet slave7 power_wifi_init (move_pkt 10)"
  have "pulse_view st = (False, True, 5)" unfolding st_def by (rule move_from_boot)
  then have p: "unat (current_pos st) = 5" by (simp add: pulse_view_def)
  have "reachable slave7 st"
    unfolding st_def by (intro reachable_handle_packet reachable.boot)
  then have z: "busy st = 0" "position st = 0" by (simp_all add: reachable_invariant)
  have a: "node_addr slave7 \<noteq> WIFI_MASTER_ADDR" "data get_status_pkt ! 0 = WIFI_CMD_GET_STATUS"
    by (simp_all add: slave7_def get_status_pkt_def)
  have "outbound (snd (snd (wifi_pkt_decoding slave7 True st get_status_pkt))) =
      [(WIFI_MASTER_ADDR, [WIFI_CMD_GIVE_STATUS, 0, 0, 16, 0])]"
    by (simp add: status_report_contents [OF a] z adc_sum16_slave7)
  with p show ?thesis unfolding st_def by simp
qed

end
